theory Spec2Isabelle
  imports Complex_Main "HOL-Library.Multiset" "HOL-Library.AList" "HOL-Library.Product_Lexorder"
begin

section \<open>Population synthesis: the model of \<^verbatim>\<open>population.py\<close>\<close>

text \<open>
  The module is Python 2 (\<^verbatim>\<open>xrange\<close>, \<^verbatim>\<open>it.next()\<close>, true division imported from
  \<^verbatim>\<open>__future__\<close>). Every \<^verbatim>\<open>raise\<close> of the source is a value of \<open>error\<close>; a function that
  can fail returns \<open>error + 'a\<close>. The two \<^verbatim>\<open>assert\<close> statements are modelled as executed
  (the interpreter is not run with \<^verbatim>\<open>-O\<close>).
\<close>

subsection \<open>Errors\<close>

datatype assert_msg =
    RowColSubsumNotEqual
      \<comment> \<open>\<^verbatim>\<open>'Row subsum and column subsum are not equal.'\<close>\<close>
  | AlternativesLessThanSlots int int
      \<comment> \<open>\<^verbatim>\<open>"%d available alternatives < %d required slots" % (capsum, total)\<close>\<close>

datatype error =
    AssertionError assert_msg
  | StopIteration
  | KeyError
  | ValueError
  | OverflowError

subsection \<open>The random source and \<^verbatim>\<open>random.shuffle\<close>\<close>

text \<open>
  The global random stream is an infinite sequence of raw draws; taking one draw returns
  its head and the rest. \<^verbatim>\<open>random.shuffle(x)\<close> of the Python 2 standard library is
  \<^verbatim>\<open>for i in reversed(xrange(1, len(x))): j = int(random() * (i+1)); x[i], x[j] = x[j], x[i]\<close>:
  for \<open>i\<close> from \<open>len(x) - 1\<close> down to \<open>1\<close> it swaps \<open>x[i]\<close> with \<open>x[j]\<close> for a drawn
  \<open>j\<close> in \<open>0..i\<close>.
\<close>

type_synonym rng = "nat \<Rightarrow> nat"

definition randbelow :: "nat \<Rightarrow> rng \<Rightarrow> nat \<times> rng" where
  "randbelow n g = (g 0 mod n, (\<lambda>k. g (Suc k)))"

fun shuffle_from :: "nat \<Rightarrow> 'a list \<Rightarrow> rng \<Rightarrow> 'a list \<times> rng" where
  "shuffle_from 0 x g = (x, g)"
| "shuffle_from (Suc i) x g =
     (case randbelow (Suc i + 1) g of
        (j, g') \<Rightarrow> shuffle_from i (x[Suc i := x ! j, j := x ! Suc i]) g')"

definition shuffle :: "'a list \<Rightarrow> rng \<Rightarrow> 'a list \<times> rng" where
  "shuffle x g = shuffle_from (length x - 1) x g"

subsection \<open>The assignment sampler\<close>

text \<open>
  A capacity mapping is a Python \<^verbatim>\<open>dict\<close> from slot to \<^verbatim>\<open>int\<close>: an association list in
  the order of \<^verbatim>\<open>capacity.items()\<close>, with distinct keys. \<^verbatim>\<open>itertools.repeat(slot, n)\<close>
  yields nothing for \<open>n \<le> 0\<close>. \<^verbatim>\<open>assignment[0:total]\<close> with a negative \<open>total\<close> drops the
  last \<open>-total\<close> elements.
\<close>

type_synonym 's capacities = "('s \<times> int) list"

definition rand_assignment :: "'s capacities \<Rightarrow> rng \<Rightarrow> 's list \<times> rng" where
  "rand_assignment capacity g =
     (let slot_assginment =
            fold (\<lambda>(slot, capacity) acc. acc @ replicate (nat capacity) slot) capacity []
      in shuffle slot_assginment g)"

definition slice_to :: "'a list \<Rightarrow> int \<Rightarrow> 'a list" where
  "slice_to xs total' =
     (if total' < 0 then take (nat (int (length xs) + total')) xs else take (nat total') xs)"

definition get_assignments :: "'s capacities \<Rightarrow> int \<Rightarrow> rng \<Rightarrow> error + ('s list \<times> rng)" where
  "get_assignments capacity total' g =
     (let capsum = sum_list (map snd capacity) in
      if \<not> capsum \<ge> total'
      then Inl (AssertionError (AlternativesLessThanSlots capsum total'))
      else case rand_assignment capacity g of
             (assignment, g') \<Rightarrow> Inr (slice_to assignment total', g'))"

subsection \<open>The assignment sampler on a store of objects\<close>

text \<open>
  The same two methods with the objects they touch made explicit. A heap holds the
  \<^verbatim>\<open>dict\<close> objects and the \<^verbatim>\<open>list\<close> objects; a reference is an index into it, and a new
  object is appended. \<^verbatim>\<open>_rand_assignment\<close> receives a reference to the caller's dict,
  creates the list \<^verbatim>\<open>slot_assginment\<close>, extends it once per item and shuffles it in place;
  its loop rebinds the local name \<^verbatim>\<open>capacity\<close> to each item's count, which changes the
  local variable and no object. \<^verbatim>\<open>assignment[0:total]\<close> creates a second list.
\<close>

record 's heap =
  dicts :: "'s capacities list"
  lists :: "'s list list"

definition rand_assignment_h :: "nat \<Rightarrow> 's heap \<Rightarrow> rng \<Rightarrow> nat \<times> 's heap \<times> rng" where
  "rand_assignment_h capacity h g =
     (let slot_assginment = length (lists h);
          h1 = h\<lparr>lists := lists h @ [[]]\<rparr>;
          h2 = fold (\<lambda>(slot, capacity) h'.
                  h'\<lparr>lists := (lists h')[slot_assginment :=
                         lists h' ! slot_assginment @ replicate (nat capacity) slot]\<rparr>)
                 (dicts h1 ! capacity) h1
      in case shuffle (lists h2 ! slot_assginment) g of
           (shuffled, g') \<Rightarrow>
             (slot_assginment, h2\<lparr>lists := (lists h2)[slot_assginment := shuffled]\<rparr>, g'))"

definition get_assignments_h ::
  "nat \<Rightarrow> int \<Rightarrow> 's heap \<Rightarrow> rng \<Rightarrow> (error + nat) \<times> 's heap \<times> rng" where
  "get_assignments_h capacity total' h g =
     (let capsum = sum_list (map snd (dicts h ! capacity)) in
      if \<not> capsum \<ge> total'
      then (Inl (AssertionError (AlternativesLessThanSlots capsum total')), h, g)
      else case rand_assignment_h capacity h g of
             (assignment, h', g') \<Rightarrow>
               (Inr (length (lists h')),
                h'\<lparr>lists := lists h' @ [slice_to (lists h' ! assignment) total']\<rparr>, g'))"

subsection \<open>Entities\<close>

text \<open>
  \<^verbatim>\<open>Individual\<close> with its subclasses \<^verbatim>\<open>Adult\<close> and \<^verbatim>\<open>Child\<close> is one datatype with two
  constructors; the fields \<^verbatim>\<open>transitions\<close> and \<^verbatim>\<open>states\<close>, created empty and never used
  in this module, are left out. Field names carry a suffix where two classes share a name
  or the name is taken (\<open>id\<close>, \<open>size\<close>).
\<close>

type_synonym location = nat
type_synonym activity = nat
type_synonym program = "activity list"

datatype individual =
    Adult (id_ind: nat) (residence_ind: location) (office: location) (program_ind: program)
  | Child (id_ind: nat) (residence_ind: location) (school: location) (program_ind: program)

record household =
  id_hh :: nat
  size_hh :: int
  residence_hh :: location
  fleet_hh :: int
  program_hh :: program
  adults_hh :: "individual list"
  children_hh :: "individual list"

definition Household :: "nat \<Rightarrow> int \<Rightarrow> int \<Rightarrow> location \<Rightarrow> program \<Rightarrow> household" where
  "Household id' size' fleet residence program' =
     \<lparr>id_hh = id', size_hh = size', residence_hh = residence, fleet_hh = fleet,
      program_hh = program', adults_hh = [], children_hh = []\<rparr>"

definition add_adult ::
  "household \<Rightarrow> nat \<Rightarrow> location \<Rightarrow> location \<Rightarrow> program \<Rightarrow> individual \<times> household" where
  "add_adult self id' residence office' program' =
     (let adult = Adult id' residence office' program'
      in (adult, self\<lparr>adults_hh := adults_hh self @ [adult]\<rparr>))"

definition add_child ::
  "household \<Rightarrow> nat \<Rightarrow> location \<Rightarrow> location \<Rightarrow> program \<Rightarrow> individual \<times> household" where
  "add_child self id' residence school' program' =
     (let child = Child id' residence school' program'
      in (child, self\<lparr>children_hh := children_hh self @ [child]\<rparr>))"

record population =
  size_freq :: "(int \<times> int) list"
  fleet_freq :: "(int \<times> int) list"
  prog_freq :: "(nat \<times> int) list"
  households :: "household list"
  adults :: "individual list"
  children :: "individual list"
  individuals :: "individual list"

definition Population ::
  "(int \<times> int) list \<Rightarrow> (int \<times> int) list \<Rightarrow> (nat \<times> int) list \<Rightarrow> population" where
  "Population size_freq' fleet_freq' prog_freq' =
     \<lparr>size_freq = sort size_freq', fleet_freq = sort fleet_freq', prog_freq = prog_freq',
      households = [], adults = [], children = [], individuals = []\<rparr>"

subsection \<open>Collaborators\<close>

text \<open>
  \<^verbatim>\<open>land\<close> and \<^verbatim>\<open>demand\<close> are objects of other modules; the model takes what the code
  reads from them: \<^verbatim>\<open>land.get_capacities(category)\<close>, \<^verbatim>\<open>demand.get_activity(name)\<close> and the
  dict \<^verbatim>\<open>demand.programs\<close>.
\<close>

record land =
  get_capacities :: "string \<Rightarrow> location capacities"

record demand =
  get_activity :: "string \<Rightarrow> activity"
  programs :: "nat \<rightharpoonup> program"

text \<open>
  Modelled from the spec: \<^verbatim>\<open>add_object2pool\<close> of the module \<^verbatim>\<open>utils\<close>, which is not among
  the sources. The spec (4.3) has each created object appended to the flat list it is created
  for; the model calls the constructor with the length of the pool as the new identity and
  appends the object. The constructor may change an object of its own (the household of
  \<^verbatim>\<open>household.add_adult\<close>), which it returns as its second component.
\<close>

definition add_object2pool :: "(nat \<Rightarrow> 'o \<times> 's) \<Rightarrow> 'o list \<Rightarrow> 'o \<times> 'o list \<times> 's" where
  "add_object2pool ctor pool =
     (case ctor (length pool) of (obj, s) \<Rightarrow> (obj, pool @ [obj], s))"

text \<open>
  Modelled from the spec: \<^verbatim>\<open>ndrange\<close> of the module \<^verbatim>\<open>utils\<close>, which is not among the
  sources. The spec (4.3, step 6) walks every (row, column) cell of the table; the model
  yields the index pairs row by row.
\<close>

definition ndrange :: "nat \<Rightarrow> nat \<Rightarrow> (nat \<times> nat) list" where
  "ndrange n_row n_col = List.product [0..<n_row] [0..<n_col]"

subsection \<open>Creating one household\<close>

text \<open>
  An iterator over a list is the list of the elements not yet taken; \<^verbatim>\<open>it.next()\<close> on an
  exhausted iterator raises \<^verbatim>\<open>StopIteration\<close>.
\<close>

definition next_item :: "'a list \<Rightarrow> error + ('a \<times> 'a list)" where
  "next_item it = (case it of [] \<Rightarrow> Inl StopIteration | x # rest \<Rightarrow> Inr (x, rest))"

record streams =
  it_program :: "program list"
  it_residence :: "location list"
  it_office :: "location list"
  it_school :: "location list"

text \<open>The loop \<^verbatim>\<open>for _ in xrange(wknum)\<close> of \<^verbatim>\<open>add_household\<close>, by the number of rounds left.\<close>

fun add_adults ::
  "nat \<Rightarrow> program \<Rightarrow> household \<times> population \<times> streams
     \<Rightarrow> error + (household \<times> population \<times> streams)" where
  "add_adults 0 adult_program st = Inr st"
| "add_adults (Suc n) adult_program (household, self, its) =
     (case next_item (it_office its) of
        Inl e \<Rightarrow> Inl e
      | Inr (office', rest) \<Rightarrow>
          (case add_object2pool
                  (\<lambda>id'. add_adult household id' (residence_hh household) office' adult_program)
                  (individuals self) of
             (adult, pool, household') \<Rightarrow>
               add_adults n adult_program
                 (household',
                  self\<lparr>individuals := pool, adults := adults self @ [adult]\<rparr>,
                  its\<lparr>it_office := rest\<rparr>)))"

text \<open>The loop \<^verbatim>\<open>for _ in xrange(stnum)\<close> of \<^verbatim>\<open>add_household\<close>.\<close>

fun add_children ::
  "nat \<Rightarrow> program \<Rightarrow> household \<times> population \<times> streams
     \<Rightarrow> error + (household \<times> population \<times> streams)" where
  "add_children 0 child_program st = Inr st"
| "add_children (Suc n) child_program (household, self, its) =
     (case next_item (it_school its) of
        Inl e \<Rightarrow> Inl e
      | Inr (school', rest) \<Rightarrow>
          (case add_object2pool
                  (\<lambda>id'. add_child household id' (residence_hh household) school' child_program)
                  (individuals self) of
             (child, pool, household') \<Rightarrow>
               add_children n child_program
                 (household',
                  self\<lparr>individuals := pool, children := children self @ [child]\<rparr>,
                  its\<lparr>it_school := rest\<rparr>)))"

text \<open>
  \<^verbatim>\<open>add_household\<close>: the arguments of the first call are evaluated from left to right, so
  the residence is drawn before the program. \<^verbatim>\<open>self.households\<close> holds a reference to the
  new household, so on return its last entry is the household with the members it has
  received since.
\<close>

definition add_household ::
  "population \<Rightarrow> int \<Rightarrow> int \<Rightarrow> demand \<Rightarrow> streams \<Rightarrow> error + (household \<times> population \<times> streams)" where
  "add_household self size' fleet demand' its =
     (case next_item (it_residence its) of
        Inl e \<Rightarrow> Inl e
      | Inr (residence, rest_residence) \<Rightarrow>
     (case next_item (it_program its) of
        Inl e \<Rightarrow> Inl e
      | Inr (program', rest_program) \<Rightarrow>
     (case add_object2pool (\<lambda>id'. (Household id' size' fleet residence program', ()))
             (households self) of
        (household, pool, _) \<Rightarrow>
     (let self1 = self\<lparr>households := pool\<rparr>;
          its1 = its\<lparr>it_residence := rest_residence, it_program := rest_program\<rparr>;
          wknum = (if size' > 3 then 2 else size');
          stnum = (if size' < 3 then 0 else size' - 2);
          ihome = get_activity demand' ''home'';
          iwork = get_activity demand' ''work'';
          ischool = get_activity demand' ''school'';
          adult_program = [ihome, iwork] @ program_hh household
      in case add_adults (nat wknum) adult_program (household, self1, its1) of
           Inl e \<Rightarrow> Inl e
         | Inr (household2, self2, its2) \<Rightarrow>
             (let child_program = [ihome, ischool] @ program_hh household2
              in case add_children (nat stnum) child_program (household2, self2, its2) of
                   Inl e \<Rightarrow> Inl e
                 | Inr (household3, self3, its3) \<Rightarrow>
                     Inr (household3,
                          self3\<lparr>households :=
                                  (households self3)[length (households self3) - 1 := household3]\<rparr>,
                          its3))))))"

subsection \<open>Floating-point values\<close>

text \<open>
  A \<^verbatim>\<open>numpy\<close> \<^verbatim>\<open>float64\<close> is a finite number, an infinity or NaN. The model is exact on the
  finite values (no rounding, no overflow, one zero) and follows IEEE 754 on the special
  ones: \<open>0/0\<close>, \<open>\<infinity>/\<infinity>\<close>, \<open>\<infinity> - \<infinity>\<close> and \<open>0 \<sqdot> \<infinity>\<close> are NaN, every operation on NaN is
  NaN, and every comparison with NaN is false. \<^verbatim>\<open>numpy\<close> divides by zero with a warning,
  not an exception.
\<close>

datatype fl = Finite real | PosInf | NegInf | NaN

fun fl_add :: "fl \<Rightarrow> fl \<Rightarrow> fl" where
  "fl_add NaN _ = NaN"
| "fl_add _ NaN = NaN"
| "fl_add (Finite a) (Finite b) = Finite (a + b)"
| "fl_add PosInf NegInf = NaN"
| "fl_add NegInf PosInf = NaN"
| "fl_add PosInf _ = PosInf"
| "fl_add _ PosInf = PosInf"
| "fl_add NegInf _ = NegInf"
| "fl_add _ NegInf = NegInf"

fun fl_neg :: "fl \<Rightarrow> fl" where
  "fl_neg (Finite a) = Finite (- a)"
| "fl_neg PosInf = NegInf"
| "fl_neg NegInf = PosInf"
| "fl_neg NaN = NaN"

definition fl_sub :: "fl \<Rightarrow> fl \<Rightarrow> fl" where
  "fl_sub a b = fl_add a (fl_neg b)"

text \<open>The sign of a value: \<open>Some True\<close> for positive, \<open>Some False\<close> for negative.\<close>

fun fl_sign :: "fl \<Rightarrow> bool option" where
  "fl_sign (Finite a) = (if a > 0 then Some True else if a < 0 then Some False else None)"
| "fl_sign PosInf = Some True"
| "fl_sign NegInf = Some False"
| "fl_sign NaN = None"

definition fl_inf :: "bool \<Rightarrow> fl" where
  "fl_inf positive = (if positive then PosInf else NegInf)"

fun fl_mul :: "fl \<Rightarrow> fl \<Rightarrow> fl" where
  "fl_mul NaN _ = NaN"
| "fl_mul _ NaN = NaN"
| "fl_mul (Finite a) (Finite b) = Finite (a * b)"
| "fl_mul a b =
     (case (fl_sign a, fl_sign b) of
        (Some sa, Some sb) \<Rightarrow> fl_inf (sa = sb)
      | _ \<Rightarrow> NaN)"

fun fl_div :: "fl \<Rightarrow> fl \<Rightarrow> fl" where
  "fl_div NaN _ = NaN"
| "fl_div _ NaN = NaN"
| "fl_div (Finite a) (Finite b) =
     (if b \<noteq> 0 then Finite (a / b)
      else case fl_sign (Finite a) of None \<Rightarrow> NaN | Some sa \<Rightarrow> fl_inf sa)"
| "fl_div (Finite a) _ = Finite 0"
| "fl_div a (Finite b) = fl_inf ((fl_sign a = Some True) = (b \<ge> 0))"
| "fl_div _ _ = NaN"

fun fl_gt :: "fl \<Rightarrow> fl \<Rightarrow> bool" where
  "fl_gt NaN _ = False"
| "fl_gt _ NaN = False"
| "fl_gt (Finite a) (Finite b) = (a > b)"
| "fl_gt PosInf b = (b \<noteq> PosInf)"
| "fl_gt a NegInf = (a \<noteq> NegInf)"
| "fl_gt _ _ = False"

fun fl_eq :: "fl \<Rightarrow> fl \<Rightarrow> bool" where
  "fl_eq NaN _ = False"
| "fl_eq _ NaN = False"
| "fl_eq a b = (a = b)"


text \<open>\<^verbatim>\<open>a.sum()\<close>: the sum of the elements, \<open>0.0\<close> for none.\<close>

definition fl_sum :: "fl list \<Rightarrow> fl" where
  "fl_sum xs = fold (\<lambda>x acc. fl_add acc x) xs (Finite 0)"

text \<open>
  \<^verbatim>\<open>int(round(x))\<close>: Python 2 rounds halves away from zero; \<^verbatim>\<open>int\<close> of NaN raises
  \<^verbatim>\<open>ValueError\<close>, of an infinity \<^verbatim>\<open>OverflowError\<close>.
\<close>

definition py_round :: "real \<Rightarrow> int" where
  "py_round x = (if x \<ge> 0 then \<lfloor>x + 1 / 2\<rfloor> else - \<lfloor>- x + 1 / 2\<rfloor>)"

fun int_round :: "fl \<Rightarrow> error + int" where
  "int_round (Finite x) = Inr (py_round x)"
| "int_round NaN = Inl ValueError"
| "int_round _ = Inl OverflowError"

subsection \<open>The proportional fitter\<close>

text \<open>
  A table is the list of its rows. The marginals are taken as \<^verbatim>\<open>float64\<close> arrays (an array
  of Python ints converts exactly). \<^verbatim>\<open>table.sum(1)\<close> are the row sums, \<^verbatim>\<open>table.sum(0)\<close> the
  column sums; the reshaped products and quotients broadcast a row's factor over the row
  and a column's factor over the column.
\<close>

type_synonym table = "fl list list"

definition init_table :: "nat \<Rightarrow> nat \<Rightarrow> table" where
  "init_table n_row n_col =
     fold (\<lambda>(i, j) table. if i > j then table[i := (table ! i)[j := Finite 0]] else table)
       (ndrange n_row n_col) (replicate n_row (replicate n_col (Finite 1)))"

definition row_sums :: "table \<Rightarrow> fl list" where
  "row_sums table = map fl_sum table"

definition col_sums :: "nat \<Rightarrow> table \<Rightarrow> fl list" where
  "col_sums n_col table = map (\<lambda>j. fl_sum (map (\<lambda>row. row ! j) table)) [0..<n_col]"

definition row_fit :: "fl list \<Rightarrow> table \<Rightarrow> table" where
  "row_fit row_sum table =
     map (\<lambda>(r, row). map (\<lambda>x. fl_mul r (fl_div x (fl_sum row))) row) (zip row_sum table)"

definition col_fit :: "fl list \<Rightarrow> table \<Rightarrow> table" where
  "col_fit col_sum table =
     (let n_col = length col_sum; s = col_sums n_col table
      in map (\<lambda>row. map (\<lambda>j. fl_mul (col_sum ! j) (fl_div (row ! j) (s ! j))) [0..<n_col]) table)"

definition row_error :: "fl list \<Rightarrow> table \<Rightarrow> fl" where
  "row_error row_sum table =
     (let row_diff = map (\<lambda>(s, r). fl_sub s r) (zip (row_sums table) row_sum)
      in fl_sum (map (\<lambda>d. fl_mul d d) row_diff))"

text \<open>
  The loop \<^verbatim>\<open>while row_err > tolerance\<close>, entered with the initial table and
  \<^verbatim>\<open>row_err = float('+inf')\<close>. Nothing bounds the number of rounds: the result is \<open>None\<close>
  when the loop does not stop.
\<close>

partial_function (option) fit_loop :: "fl list \<Rightarrow> fl list \<Rightarrow> fl \<Rightarrow> table \<Rightarrow> fl \<Rightarrow> table option" where
  "fit_loop row_sum col_sum tolerance table row_err =
     (if fl_gt row_err tolerance
      then fit_loop row_sum col_sum tolerance
             (col_fit col_sum (row_fit row_sum table))
             (row_error row_sum (col_fit col_sum (row_fit row_sum table)))
      else Some table)"

definition proportional_fit :: "fl list \<Rightarrow> fl list \<Rightarrow> fl \<Rightarrow> (error + table) option" where
  "proportional_fit row_sum col_sum tolerance =
     (let n_row = length row_sum; n_col = length col_sum in
      if \<not> fl_eq (fl_sum row_sum) (fl_sum col_sum)
      then Some (Inl (AssertionError RowColSubsumNotEqual))
      else map_option Inr
             (fit_loop row_sum col_sum tolerance (init_table n_row n_col) PosInf))"

subsection \<open>Creating the households\<close>

text \<open>
  \<^verbatim>\<open>dict(((demand.programs[id_], freq) for id_, freq in self.prog_freq))\<close>: a missing label
  raises \<^verbatim>\<open>KeyError\<close>; of two pairs with the same program the later one stays.
\<close>

fun program_pairs :: "demand \<Rightarrow> (nat \<times> int) list \<Rightarrow> error + (program \<times> int) list" where
  "program_pairs demand' [] = Inr []"
| "program_pairs demand' ((id', freq) # rest) =
     (case programs demand' id' of
        None \<Rightarrow> Inl KeyError
      | Some p \<Rightarrow>
          (case program_pairs demand' rest of
             Inl e \<Rightarrow> Inl e
           | Inr ps \<Rightarrow> Inr ((p, freq) # ps)))"

definition dict_of :: "('k \<times> 'v) list \<Rightarrow> ('k \<times> 'v) list" where
  "dict_of pairs = fold (\<lambda>(k, v) d. AList.update k v d) pairs []"

text \<open>The loop \<^verbatim>\<open>for _ in xrange(int(round(table[i, j])))\<close>, by the number of rounds left.\<close>

fun add_households ::
  "nat \<Rightarrow> int \<Rightarrow> int \<Rightarrow> demand \<Rightarrow> population \<times> streams \<Rightarrow> error + (population \<times> streams)" where
  "add_households 0 size' fleet demand' st = Inr st"
| "add_households (Suc n) size' fleet demand' (self, its) =
     (case add_household self size' fleet demand' its of
        Inl e \<Rightarrow> Inl e
      | Inr (_, self', its') \<Rightarrow> add_households n size' fleet demand' (self', its'))"

text \<open>The loop \<^verbatim>\<open>for i, j in ndrange(*table.shape)\<close>, by the cells left.\<close>

fun create_cells ::
  "(nat \<times> nat) list \<Rightarrow> table \<Rightarrow> demand \<Rightarrow> population \<times> streams \<Rightarrow> error + (population \<times> streams)" where
  "create_cells [] table demand' st = Inr st"
| "create_cells ((i, j) # cells) table demand' (self, its) =
     (case int_round (table ! i ! j) of
        Inl e \<Rightarrow> Inl e
      | Inr n \<Rightarrow>
          (case add_households (nat n) (fst (size_freq self ! j)) (fst (fleet_freq self ! i))
                  demand' (self, its) of
             Inl e \<Rightarrow> Inl e
           | Inr st' \<Rightarrow> create_cells cells table demand' st'))"

text \<open>
  What \<^verbatim>\<open>create_households\<close> does with the fitted table: the counts, the four assignment
  requests in the order of the source, and the walk over the cells.
\<close>

definition create_from_table ::
  "population \<Rightarrow> land \<Rightarrow> demand \<Rightarrow> table \<Rightarrow> rng \<Rightarrow> error + (population \<times> rng)" where
  "create_from_table self land' demand' table g =
     (case int_round (fl_sum (concat table)) of
        Inl e \<Rightarrow> Inl e
      | Inr hhnum \<Rightarrow>
     (let wknum = sum_list (map (\<lambda>(size', freq). (if size' > 3 then 2 else size') * freq)
                            (size_freq self));
          stnum = sum_list (map (\<lambda>(size', freq). (if size' < 3 then 0 else size' - 2) * freq)
                            (size_freq self))
      in case program_pairs demand' (prog_freq self) of
           Inl e \<Rightarrow> Inl e
         | Inr pairs \<Rightarrow>
     (case get_assignments (dict_of pairs) hhnum g of
        Inl e \<Rightarrow> Inl e
      | Inr (programs', g1) \<Rightarrow>
     (case get_assignments (get_capacities land' ''home'') hhnum g1 of
        Inl e \<Rightarrow> Inl e
      | Inr (residences, g2) \<Rightarrow>
     (case get_assignments (get_capacities land' ''work'') wknum g2 of
        Inl e \<Rightarrow> Inl e
      | Inr (offices, g3) \<Rightarrow>
     (case get_assignments (get_capacities land' ''school'') stnum g3 of
        Inl e \<Rightarrow> Inl e
      | Inr (schools, g4) \<Rightarrow>
     (case create_cells (ndrange (length (fleet_freq self)) (length (size_freq self)))
             table demand'
             (self, \<lparr>it_program = programs', it_residence = residences,
                     it_office = offices, it_school = schools\<rparr>) of
        Inl e \<Rightarrow> Inl e
      | Inr (self', _) \<Rightarrow> Inr (self', g4))))))))"

text \<open>
  \<^verbatim>\<open>create_households\<close>: the two arrays of frequencies, the fitter with its default
  tolerance \<open>0.01\<close>, and the rest. The result is \<open>None\<close> when the fitter does not return,
  otherwise the error raised or the population with the households, adults and children
  created.
\<close>

definition fleet_array :: "population \<Rightarrow> fl list" where
  "fleet_array self = map (\<lambda>(fleet, freq). Finite (of_int freq)) (fleet_freq self)"

definition size_array :: "population \<Rightarrow> fl list" where
  "size_array self = map (\<lambda>(size', freq). Finite (of_int freq)) (size_freq self)"

definition create_households ::
  "population \<Rightarrow> land \<Rightarrow> demand \<Rightarrow> rng \<Rightarrow> (error + (population \<times> rng)) option" where
  "create_households self land' demand' g =
     (case proportional_fit (fleet_array self) (size_array self) (Finite (1 / 100)) of
        None \<Rightarrow> None
      | Some (Inl e) \<Rightarrow> Some (Inl e)
      | Some (Inr table) \<Rightarrow> Some (create_from_table self land' demand' table g))"

subsection \<open>Notions used in the statements about the fitter\<close>

text \<open>
  A table of the given shape; a table whose cells below the diagonal hold \<open>0\<close> or NaN; and
  the table and the row error after \<open>k\<close> rounds of the loop body, started as the source
  starts them.
\<close>

definition well_shaped :: "nat \<Rightarrow> nat \<Rightarrow> table \<Rightarrow> bool" where
  "well_shaped n_row n_col table \<longleftrightarrow>
     length table = n_row \<and> (\<forall>i < n_row. length (table ! i) = n_col)"


fun fit_rounds :: "nat \<Rightarrow> fl list \<Rightarrow> fl list \<Rightarrow> table \<times> fl \<Rightarrow> table \<times> fl" where
  "fit_rounds 0 row_sum col_sum st = st"
| "fit_rounds (Suc k) row_sum col_sum (table, row_err) =
     fit_rounds k row_sum col_sum
       (col_fit col_sum (row_fit row_sum table),
        row_error row_sum (col_fit col_sum (row_fit row_sum table)))"

definition table_after :: "nat \<Rightarrow> fl list \<Rightarrow> fl list \<Rightarrow> table" where
  "table_after k row_sum col_sum =
     fst (fit_rounds k row_sum col_sum (init_table (length row_sum) (length col_sum), PosInf))"

definition error_after :: "nat \<Rightarrow> fl list \<Rightarrow> fl list \<Rightarrow> fl" where
  "error_after k row_sum col_sum =
     snd (fit_rounds k row_sum col_sum (init_table (length row_sum) (length col_sum), PosInf))"

subsection \<open>Notions used in the statements about \<^verbatim>\<open>create_households\<close>\<close>

text \<open>
  A value that is not negative (a finite number from \<open>0\<close> on, \<open>+\<infinity>\<close> or NaN) and a
  table of such values; the rounded count of a cell, \<open>0\<close> where \<^verbatim>\<open>int(round(x))\<close> raises;
  and the sum of the rounded counts over the cells of a table.
\<close>

fun nonneg_fl :: "fl \<Rightarrow> bool" where
  "nonneg_fl (Finite v) = (0 \<le> v)"
| "nonneg_fl NegInf = False"
| "nonneg_fl _ = True"

definition nonneg_table :: "table \<Rightarrow> bool" where
  "nonneg_table table \<longleftrightarrow>
     (\<forall>i < length table. \<forall>j < length (table ! i). nonneg_fl (table ! i ! j))"

definition cell_round :: "fl \<Rightarrow> int" where
  "cell_round x = (case int_round x of Inl e \<Rightarrow> 0 | Inr n \<Rightarrow> n)"

definition cells_rounded :: "table \<Rightarrow> nat \<Rightarrow> nat \<Rightarrow> int" where
  "cells_rounded table n_row n_col =
     sum_list (map (\<lambda>(i, j). cell_round (table ! i ! j)) (ndrange n_row n_col))"

text \<open>
  The four requests of \<^verbatim>\<open>create_households\<close> to the sampler pass their assertions: every
  program label is known, and programs, homes, work places and schools have the capacity
  for the households, workers and students counted.
\<close>

definition enough_slots :: "population \<Rightarrow> land \<Rightarrow> demand \<Rightarrow> int \<Rightarrow> bool" where
  "enough_slots self land' demand' hhnum \<longleftrightarrow>
     (case program_pairs demand' (prog_freq self) of
        Inl e \<Rightarrow> False
      | Inr pairs \<Rightarrow> hhnum \<le> sum_list (map snd (dict_of pairs)))
     \<and> hhnum \<le> sum_list (map snd (get_capacities land' ''home''))
     \<and> sum_list (map (\<lambda>(size', freq). (if size' > 3 then 2 else size') * freq) (size_freq self))
         \<le> sum_list (map snd (get_capacities land' ''work''))
     \<and> sum_list (map (\<lambda>(size', freq). (if size' < 3 then 0 else size' - 2) * freq)
           (size_freq self))
         \<le> sum_list (map snd (get_capacities land' ''school''))"

subsection \<open>Example inputs\<close>

definition example_demand :: demand where
  "example_demand =
     \<lparr>get_activity = (\<lambda>name. if name = ''home'' then 0 else if name = ''work'' then 1 else 2),
      programs = [0 \<mapsto> [5]]\<rparr>"

definition example_land :: land where
  "example_land = \<lparr>get_capacities = (\<lambda>category. [(3, 2), (4, 3)])\<rparr>"

definition example_big_land :: land where
  "example_big_land = \<lparr>get_capacities = (\<lambda>category. [(3, 20), (4, 30)])\<rparr>"

definition example_rng :: rng where
  "example_rng k = 0"

definition example_streams :: streams where
  "example_streams =
     \<lparr>it_program = [[5]], it_residence = [7], it_office = [10, 11, 12], it_school = [20]\<rparr>"

section \<open>Properties of the assignment sampler\<close>

lemma shuffle_from_mset:
  "i < length x \<Longrightarrow> mset (fst (shuffle_from i x g)) = mset x"
proof (induction i arbitrary: x g)
  case 0
  show ?case by simp
next
  case (Suc i)
  obtain j g' where r: "randbelow (Suc i + 1) g = (j, g')"
    by (cases "randbelow (Suc i + 1) g")
  then have j: "j < Suc i + 1"
    by (auto simp: randbelow_def)
  with Suc.prems have jl: "j < length x" by simp
  let ?y = "x[Suc i := x ! j, j := x ! Suc i]"
  have "mset ?y = mset x"
    using Suc.prems jl by (simp add: mset_swap)
  moreover have "mset (fst (shuffle_from i ?y g')) = mset ?y"
    using Suc.prems by (intro Suc.IH) simp
  ultimately show ?case using r by simp
qed

lemma shuffle_mset: "mset (fst (shuffle x g)) = mset x"
proof (cases x)
  case Nil
  then show ?thesis by (simp add: shuffle_def)
next
  case (Cons a as)
  then show ?thesis by (simp add: shuffle_def shuffle_from_mset)
qed


lemma pool_fold:
  "fold (\<lambda>(slot, capacity) acc. acc @ replicate (nat capacity) slot) capacity acc0 =
   acc0 @ concat (map (\<lambda>(slot, c). replicate (nat c) slot) capacity)"
  by (induction capacity arbitrary: acc0) (auto simp: case_prod_beta)

lemma pool_length:
  "length (concat (map (\<lambda>(slot, c). replicate (nat c) slot) capacity)) =
   sum_list (map (\<lambda>(slot, c). nat c) capacity)"
  by (induction capacity) (auto simp: case_prod_beta)

lemma pool_length_ge:
  "sum_list (map snd capacity) \<le> int (sum_list (map (\<lambda>(slot, c). nat c) capacity))"
  by (induction capacity) (auto simp: case_prod_beta)

lemma pool_count_absent:
  "s \<notin> fst ` set capacity \<Longrightarrow>
   count_list (concat (map (\<lambda>(slot, c). replicate (nat c) slot) capacity)) s = 0"
  by (induction capacity) (auto simp: case_prod_beta)

lemma count_list_replicate:
  "count_list (replicate n x) s = (if x = s then n else 0)"
  by (induction n) auto

lemma pool_count:
  "distinct (map fst capacity) \<Longrightarrow>
   count_list (concat (map (\<lambda>(slot, c). replicate (nat c) slot) capacity)) s =
   (case map_of capacity s of None \<Rightarrow> 0 | Some c \<Rightarrow> nat c)"
proof (induction capacity)
  case Nil
  show ?case by simp
next
  case (Cons p capacity)
  obtain k c where p: "p = (k, c)" by (cases p)
  show ?case
  proof (cases "k = s")
    case True
    with Cons.prems p have "s \<notin> fst ` set capacity" by auto
    then have "count_list (concat (map (\<lambda>(slot, c). replicate (nat c) slot) capacity)) s = 0"
      by (rule pool_count_absent)
    with True p show ?thesis by (simp add: count_list_replicate)
  next
    case False
    with Cons p show ?thesis by (simp add: count_list_replicate)
  qed
qed

lemma count_list_take_le: "count_list (take n ys) s \<le> count_list ys s"
proof -
  have "count_list ys s = count_list (take n ys @ drop n ys) s" by simp
  also have "\<dots> = count_list (take n ys) s + count_list (drop n ys) s"
    by (simp only: count_list_append)
  finally show ?thesis by simp
qed

lemma rand_assignment_mset:
  "mset (fst (rand_assignment capacity g)) =
   mset (concat (map (\<lambda>(slot, c). replicate (nat c) slot) capacity))"
  by (simp add: rand_assignment_def pool_fold shuffle_mset)

lemma rand_assignment_count:
  "count_list (fst (rand_assignment capacity g)) s =
   count_list (concat (map (\<lambda>(slot, c). replicate (nat c) slot) capacity)) s"
  using rand_assignment_mset [of capacity g] by (metis count_mset)

lemma rand_assignment_length:
  "length (fst (rand_assignment capacity g)) = sum_list (map (\<lambda>(slot, c). nat c) capacity)"
  using rand_assignment_mset [of capacity g] pool_length [of capacity] by (metis size_mset)

text \<open>
  Claim C4. For a capacity mapping (distinct slots, no negative capacity) and a required
  count \<open>total\<close> (not negative) that is at most the sum of the capacities,
  \<^verbatim>\<open>_get_assignments\<close> returns a sequence of exactly \<open>total\<close> slots in which every slot
  occurs at most as often as its capacity says, and a slot outside the mapping never.
\<close>

theorem get_assignments_exact:
  assumes keys: "distinct (map fst capacity)"
    and caps: "\<forall>c \<in> snd ` set capacity. 0 \<le> c"
    and nonneg: "0 \<le> total'"
    and enough: "total' \<le> sum_list (map snd capacity)"
  shows "\<exists>xs g'. get_assignments capacity total' g = Inr (xs, g')
           \<and> int (length xs) = total'
           \<and> (\<forall>s. int (count_list xs s) \<le> (case map_of capacity s of None \<Rightarrow> 0 | Some c \<Rightarrow> c))"
proof -
  obtain assignment g' where ra: "rand_assignment capacity g = (assignment, g')"
    by (cases "rand_assignment capacity g")
  let ?xs = "slice_to assignment total'"
  have res: "get_assignments capacity total' g = Inr (?xs, g')"
    using enough ra by (simp add: get_assignments_def)
  have len: "length assignment = sum_list (map (\<lambda>(slot, c). nat c) capacity)"
    using rand_assignment_length [of capacity g] ra by simp
  have "total' \<le> int (length assignment)"
    using enough pool_length_ge [of capacity] len by simp
  with nonneg have l: "int (length ?xs) = total'"
    by (simp add: slice_to_def)
  have c: "int (count_list ?xs s) \<le> (case map_of capacity s of None \<Rightarrow> 0 | Some c \<Rightarrow> c)" for s
  proof -
    have "count_list ?xs s \<le> count_list assignment s"
      using nonneg by (simp add: slice_to_def count_list_take_le)
    also have "\<dots> = (case map_of capacity s of None \<Rightarrow> 0 | Some c \<Rightarrow> nat c)"
      using rand_assignment_count [of capacity g s] ra pool_count [OF keys, of s] by simp
    finally have le: "count_list ?xs s \<le> (case map_of capacity s of None \<Rightarrow> 0 | Some c \<Rightarrow> nat c)" .
    show ?thesis
    proof (cases "map_of capacity s")
      case None
      with le show ?thesis by simp
    next
      case (Some c)
      then have "(s, c) \<in> set capacity" by (rule map_of_SomeD)
      then have "0 \<le> c" using caps by force
      with le Some show ?thesis by simp
    qed
  qed
  from res l c show ?thesis by blast
qed

theorem get_assignments_exact_witness:
  "\<exists>xs g'. get_assignments [(7::nat, 2), (9, 1)] 2 (\<lambda>k. k) = Inr (xs, g')
           \<and> int (length xs) = 2
           \<and> (\<forall>s. int (count_list xs s) \<le> (case map_of [(7::nat, 2::int), (9, 1)] s of None \<Rightarrow> 0 | Some c \<Rightarrow> c))"
  using get_assignments_exact [of "[(7::nat, 2), (9, 1)]" 2 "\<lambda>k. k"] by simp

text \<open>
  Claim C5. When the required count \<open>total\<close> is greater than the sum of the capacities,
  \<^verbatim>\<open>_get_assignments\<close> fails on its assertion, whose message carries the sum of the
  capacities and the required count; it returns no sequence, shortened or otherwise.
\<close>

theorem get_assignments_too_many:
  "sum_list (map snd capacity) < total' \<Longrightarrow>
   get_assignments capacity total' g =
     Inl (AssertionError (AlternativesLessThanSlots (sum_list (map snd capacity)) total'))"
  by (simp add: get_assignments_def)

theorem get_assignments_too_many_witness:
  "get_assignments [(7::nat, 2), (9, 1)] 4 (\<lambda>k. k) =
     Inl (AssertionError (AlternativesLessThanSlots 3 4))"
  using get_assignments_too_many [of "[(7::nat, 2), (9, 1)]" 4 "\<lambda>k. k"] by simp

subsection \<open>The sampler on the store\<close>

lemma fold_extend_h:
  "a = length L \<Longrightarrow>
   fold (\<lambda>(slot, capacity) h'.
           h'\<lparr>lists := (lists h')[a := lists h' ! a @ replicate (nat capacity) slot]\<rparr>)
        items (h\<lparr>lists := L @ [acc]\<rparr>) =
   h\<lparr>lists := L @ [fold (\<lambda>(slot, capacity) acc. acc @ replicate (nat capacity) slot) items acc]\<rparr>"
  by (induction items arbitrary: acc) (auto simp: case_prod_beta)

lemma rand_assignment_h_refines:
  "rand_assignment_h capacity h g =
     (length (lists h),
      h\<lparr>lists := lists h @ [fst (rand_assignment (dicts h ! capacity) g)]\<rparr>,
      snd (rand_assignment (dicts h ! capacity) g))"
  by (simp add: rand_assignment_h_def rand_assignment_def Let_def fold_extend_h
        split: prod.splits)

lemma get_assignments_h_refines:
  "get_assignments_h capacity total' h g =
     (case get_assignments (dicts h ! capacity) total' g of
        Inl e \<Rightarrow> (Inl e, h, g)
      | Inr (xs, g') \<Rightarrow>
          (Inr (Suc (length (lists h))),
           h\<lparr>lists := lists h @ [fst (rand_assignment (dicts h ! capacity) g), xs]\<rparr>, g'))"
  by (simp add: get_assignments_h_def get_assignments_def rand_assignment_h_refines Let_def
        nth_append split: prod.splits)

text \<open>
  Claim C8. Neither \<^verbatim>\<open>_rand_assignment\<close> nor \<^verbatim>\<open>_get_assignments\<close> changes the capacity
  mapping it is given: after the call every dict of the heap, the argument among them, is
  what it was before, and so is every list that existed before; the calls only add lists.
\<close>

theorem sampler_leaves_capacity:
  "dicts (fst (snd (rand_assignment_h capacity h g))) = dicts h
   \<and> dicts (fst (snd (get_assignments_h capacity total' h g))) = dicts h
   \<and> take (length (lists h)) (lists (fst (snd (get_assignments_h capacity total' h g)))) = lists h"
  by (simp add: rand_assignment_h_refines get_assignments_h_refines split: sum.splits prod.splits)

section \<open>Properties of \<^verbatim>\<open>add_household\<close>\<close>

lemma add_adults_props:
  "add_adults n prog (hh, self, its) = Inr (hh', self', its') \<Longrightarrow>
     residence_hh hh' = residence_hh hh \<and> program_hh hh' = program_hh hh
     \<and> size_hh hh' = size_hh hh \<and> fleet_hh hh' = fleet_hh hh \<and> id_hh hh' = id_hh hh
     \<and> children_hh hh' = children_hh hh
     \<and> (\<exists>new. adults_hh hh' = adults_hh hh @ new \<and> length new = n
            \<and> (\<forall>a \<in> set new. residence_ind a = residence_hh hh)
            \<and> individuals self' = individuals self @ new
            \<and> adults self' = adults self @ new)
     \<and> children self' = children self \<and> households self' = households self
     \<and> size_freq self' = size_freq self \<and> fleet_freq self' = fleet_freq self
     \<and> prog_freq self' = prog_freq self
     \<and> it_residence its' = it_residence its \<and> it_program its' = it_program its
     \<and> it_school its' = it_school its \<and> it_office its' = drop n (it_office its)"
proof (induction n arbitrary: hh self its)
  case 0
  then show ?case by simp
next
  case (Suc n)
  from Suc.prems obtain office' rest where
    nx: "it_office its = office' # rest"
    by (cases "it_office its") (auto simp: next_item_def)
  let ?adult = "Adult (length (individuals self)) (residence_hh hh) office' prog"
  let ?hh = "hh\<lparr>adults_hh := adults_hh hh @ [?adult]\<rparr>"
  let ?self = "self\<lparr>individuals := individuals self @ [?adult], adults := adults self @ [?adult]\<rparr>"
  let ?its = "its\<lparr>it_office := rest\<rparr>"
  from Suc.prems nx have "add_adults n prog (?hh, ?self, ?its) = Inr (hh', self', its')"
    by (simp add: next_item_def add_object2pool_def add_adult_def Let_def)
  from Suc.IH [OF this] nx show ?case by auto
qed

lemma add_children_props:
  "add_children n prog (hh, self, its) = Inr (hh', self', its') \<Longrightarrow>
     residence_hh hh' = residence_hh hh \<and> program_hh hh' = program_hh hh
     \<and> size_hh hh' = size_hh hh \<and> fleet_hh hh' = fleet_hh hh \<and> id_hh hh' = id_hh hh
     \<and> adults_hh hh' = adults_hh hh
     \<and> (\<exists>new. children_hh hh' = children_hh hh @ new \<and> length new = n
            \<and> (\<forall>a \<in> set new. residence_ind a = residence_hh hh)
            \<and> individuals self' = individuals self @ new
            \<and> children self' = children self @ new)
     \<and> adults self' = adults self \<and> households self' = households self
     \<and> size_freq self' = size_freq self \<and> fleet_freq self' = fleet_freq self
     \<and> prog_freq self' = prog_freq self
     \<and> it_residence its' = it_residence its \<and> it_program its' = it_program its
     \<and> it_office its' = it_office its \<and> it_school its' = drop n (it_school its)"
proof (induction n arbitrary: hh self its)
  case 0
  then show ?case by simp
next
  case (Suc n)
  from Suc.prems obtain school' rest where
    nx: "it_school its = school' # rest"
    by (cases "it_school its") (auto simp: next_item_def)
  let ?child = "Child (length (individuals self)) (residence_hh hh) school' prog"
  let ?hh = "hh\<lparr>children_hh := children_hh hh @ [?child]\<rparr>"
  let ?self = "self\<lparr>individuals := individuals self @ [?child], children := children self @ [?child]\<rparr>"
  let ?its = "its\<lparr>it_school := rest\<rparr>"
  from Suc.prems nx have "add_children n prog (?hh, ?self, ?its) = Inr (hh', self', its')"
    by (simp add: next_item_def add_object2pool_def add_child_def Let_def)
  from Suc.IH [OF this] nx show ?case by auto
qed

lemma add_household_props:
  assumes "add_household self size' fleet demand' its = Inr (hh, self', its')"
  shows "\<exists>residence rest_residence program' rest_program.
           it_residence its = residence # rest_residence
         \<and> it_program its = program' # rest_program
         \<and> residence_hh hh = residence \<and> program_hh hh = program'
         \<and> size_hh hh = size' \<and> fleet_hh hh = fleet
         \<and> it_residence its' = rest_residence \<and> it_program its' = rest_program"
    and "length (adults_hh hh) = nat (if size' > 3 then 2 else size')"
    and "length (children_hh hh) = nat (if size' < 3 then 0 else size' - 2)"
    and "\<forall>p \<in> set (adults_hh hh) \<union> set (children_hh hh). residence_ind p = residence_hh hh"
    and "individuals self' = individuals self @ adults_hh hh @ children_hh hh"
    and "adults self' = adults self @ adults_hh hh"
    and "children self' = children self @ children_hh hh"
    and "households self' = households self @ [hh]"
    and "size_freq self' = size_freq self \<and> fleet_freq self' = fleet_freq self
         \<and> prog_freq self' = prog_freq self"
    and "it_office its' = drop (nat (if size' > 3 then 2 else size')) (it_office its)"
    and "it_school its' = drop (nat (if size' < 3 then 0 else size' - 2)) (it_school its)"
proof -
  from assms obtain residence rest_residence where
    r: "it_residence its = residence # rest_residence"
    by (cases "it_residence its") (auto simp: add_household_def next_item_def)
  from assms r obtain program' rest_program where
    p: "it_program its = program' # rest_program"
    by (cases "it_program its") (auto simp: add_household_def next_item_def)
  let ?hh0 = "Household (length (households self)) size' fleet residence program'"
  let ?self1 = "self\<lparr>households := households self @ [?hh0]\<rparr>"
  let ?its1 = "its\<lparr>it_residence := rest_residence, it_program := rest_program\<rparr>"
  let ?wk = "nat (if size' > 3 then 2 else size')"
  let ?st = "nat (if size' < 3 then 0 else size' - 2)"
  let ?ap = "[get_activity demand' ''home'', get_activity demand' ''work''] @ program'"
  let ?cp = "[get_activity demand' ''home'', get_activity demand' ''school''] @ program'"
  have hh0: "program_hh ?hh0 = program'" "residence_hh ?hh0 = residence"
    "adults_hh ?hh0 = []" "children_hh ?hh0 = []" "size_hh ?hh0 = size'" "fleet_hh ?hh0 = fleet"
    by (simp_all add: Household_def)
  from assms r p obtain hh2 self2 its2 where
    a: "add_adults ?wk ?ap (?hh0, ?self1, ?its1) = Inr (hh2, self2, its2)"
    by (auto simp: add_household_def next_item_def add_object2pool_def Let_def hh0
          split: sum.splits)
  note A = add_adults_props [OF a]
  from A hh0 have p2: "program_hh hh2 = program'" by simp
  from assms r p a p2 obtain hh3 self3 its3 where
    c: "add_children ?st ?cp (hh2, self2, its2) = Inr (hh3, self3, its3)"
    and res: "hh = hh3" "its' = its3"
      "self' = self3\<lparr>households := (households self3)[length (households self3) - 1 := hh3]\<rparr>"
    by (auto simp: add_household_def next_item_def add_object2pool_def Let_def hh0
          split: sum.splits)
  note C = add_children_props [OF c]
  from A C hh0 have hs: "households self3 = households self @ [?hh0]" by simp
  show "\<exists>residence rest_residence program' rest_program.
           it_residence its = residence # rest_residence
         \<and> it_program its = program' # rest_program
         \<and> residence_hh hh = residence \<and> program_hh hh = program'
         \<and> size_hh hh = size' \<and> fleet_hh hh = fleet
         \<and> it_residence its' = rest_residence \<and> it_program its' = rest_program"
    using A C hh0 r p res by simp
  show "length (adults_hh hh) = nat (if size' > 3 then 2 else size')"
    using A C hh0 res by auto
  show "length (children_hh hh) = nat (if size' < 3 then 0 else size' - 2)"
    using A C hh0 res by auto
  show "\<forall>p \<in> set (adults_hh hh) \<union> set (children_hh hh). residence_ind p = residence_hh hh"
    using A C hh0 res by auto
  show "individuals self' = individuals self @ adults_hh hh @ children_hh hh"
    using A C hh0 res by auto
  show "adults self' = adults self @ adults_hh hh"
    using A C hh0 res by auto
  show "children self' = children self @ children_hh hh"
    using A C hh0 res by auto
  show "households self' = households self @ [hh]"
    using hs res by simp
  show "size_freq self' = size_freq self \<and> fleet_freq self' = fleet_freq self
         \<and> prog_freq self' = prog_freq self"
    using A C res by simp
  show "it_office its' = drop (nat (if size' > 3 then 2 else size')) (it_office its)"
    using A C res by simp
  show "it_school its' = drop (nat (if size' < 3 then 0 else size' - 2)) (it_school its)"
    using A C res by simp
qed

lemma example_add_household:
  "add_household (Population [] [] []) 3 0 example_demand example_streams =
     Inr (\<lparr>id_hh = 0, size_hh = 3, residence_hh = 7, fleet_hh = 0, program_hh = [5],
            adults_hh = [Adult 0 7 10 [0, 1, 5], Adult 1 7 11 [0, 1, 5], Adult 2 7 12 [0, 1, 5]],
            children_hh = [Child 3 7 20 [0, 2, 5]]\<rparr>,
          \<lparr>size_freq = [], fleet_freq = [], prog_freq = [],
            households =
              [\<lparr>id_hh = 0, size_hh = 3, residence_hh = 7, fleet_hh = 0, program_hh = [5],
                 adults_hh = [Adult 0 7 10 [0, 1, 5], Adult 1 7 11 [0, 1, 5],
                              Adult 2 7 12 [0, 1, 5]],
                 children_hh = [Child 3 7 20 [0, 2, 5]]\<rparr>],
            adults = [Adult 0 7 10 [0, 1, 5], Adult 1 7 11 [0, 1, 5], Adult 2 7 12 [0, 1, 5]],
            children = [Child 3 7 20 [0, 2, 5]],
            individuals = [Adult 0 7 10 [0, 1, 5], Adult 1 7 11 [0, 1, 5],
                           Adult 2 7 12 [0, 1, 5], Child 3 7 20 [0, 2, 5]]\<rparr>,
          \<lparr>it_program = [], it_residence = [], it_office = [], it_school = []\<rparr>)"
  by (simp add: add_household_def Population_def example_demand_def example_streams_def
        next_item_def add_object2pool_def Household_def add_adult_def add_child_def
        numeral_3_eq_3 Let_def)




text \<open>
  Claim C9. Every adult and every child that \<^verbatim>\<open>add_household\<close> creates has the residence
  of the household created with it; these are the individuals appended to the flat list,
  and the call takes exactly one element from the residence stream, the household's.
\<close>

theorem add_household_shared_residence:
  assumes "add_household self size' fleet demand' its = Inr (hh, self', its')"
  shows "(\<forall>p \<in> set (adults_hh hh) \<union> set (children_hh hh). residence_ind p = residence_hh hh)
       \<and> individuals self' = individuals self @ adults_hh hh @ children_hh hh
       \<and> it_residence its = residence_hh hh # it_residence its'"
  using add_household_props(1,4,5) [OF assms] by auto

theorem add_household_shared_residence_witness:
  "residence_hh (fst (projr
     (add_household (Population [] [] []) 3 0 example_demand example_streams))) = 7
   \<and> map residence_ind
        (adults_hh (fst (projr
           (add_household (Population [] [] []) 3 0 example_demand example_streams)))
         @ children_hh (fst (projr
           (add_household (Population [] [] []) 3 0 example_demand example_streams)))) =
       [7, 7, 7, 7]
   \<and> it_residence example_streams = [7]"
proof -
  have s: "it_residence example_streams = [7]"
    by (simp add: example_streams_def)
  show ?thesis
    using add_household_shared_residence [OF example_add_household]
    by (simp add: example_add_household s)
qed

section \<open>Properties of the proportional fitter\<close>

subsection \<open>Floating-point values and the shape of the table\<close>

lemma fl_add_NaN [simp]: "fl_add x NaN = NaN"
  by (cases x) simp_all

lemma fl_mul_NaN [simp]: "fl_mul x NaN = NaN"
  by (cases x) simp_all

lemma fl_div_NaN [simp]: "fl_div x NaN = NaN"
  by (cases x) simp_all

lemma fl_add_not_NaN: "fl_add a b \<noteq> NaN \<Longrightarrow> a \<noteq> NaN \<and> b \<noteq> NaN"
  by (cases a; cases b) simp_all

lemma fl_neg_not_NaN: "fl_neg a \<noteq> NaN \<Longrightarrow> a \<noteq> NaN"
  by (cases a) simp_all



lemma fold_add_not_NaN:
  "fold (\<lambda>x acc. fl_add acc x) xs a \<noteq> NaN \<Longrightarrow> a \<noteq> NaN \<and> NaN \<notin> set xs"
proof (induction xs arbitrary: a)
  case Nil
  then show ?case by simp
next
  case (Cons x xs)
  from Cons.prems have "fold (\<lambda>x acc. fl_add acc x) xs (fl_add a x) \<noteq> NaN" by simp
  from Cons.IH [OF this] have "fl_add a x \<noteq> NaN" and "NaN \<notin> set xs" by simp_all
  with fl_add_not_NaN [of a x] show ?case by auto
qed

lemma fl_sum_not_NaN: "fl_sum xs \<noteq> NaN \<Longrightarrow> NaN \<notin> set xs"
  unfolding fl_sum_def by (drule fold_add_not_NaN) simp

lemma fl_sum_has_NaN: "NaN \<in> set xs \<Longrightarrow> fl_sum xs = NaN"
  using fl_sum_not_NaN by blast




text \<open>The initial table.\<close>

lemma update_cell_length:
  "i < length t \<Longrightarrow> length (t[a := (t ! a)[b := v]] ! i) = length (t ! i)"
  by (cases "a = i") simp_all

lemma update_cell_nth:
  "i < length t \<Longrightarrow> j < length (t ! i) \<Longrightarrow>
   t[a := (t ! a)[b := v]] ! i ! j = (if a = i \<and> b = j then v else t ! i ! j)"
  by (cases "a = i"; cases "b = j") simp_all

lemma fold_zero_shape:
  "length (fold (\<lambda>(i, j) table. if i > j then table[i := (table ! i)[j := Finite 0]] else table)
             ps t) = length t
   \<and> (\<forall>i < length t.
        length (fold (\<lambda>(i, j) table. if i > j then table[i := (table ! i)[j := Finite 0]] else table)
                  ps t ! i) = length (t ! i))"
proof (induction ps arbitrary: t)
  case Nil
  show ?case by simp
next
  case (Cons p ps)
  obtain a b where p: "p = (a, b)" by (cases p)
  let ?t = "if a > b then t[a := (t ! a)[b := Finite 0]] else t"
  have l: "length ?t = length t" by simp
  have r: "\<forall>i < length t. length (?t ! i) = length (t ! i)"
    by (simp add: update_cell_length)
  from Cons.IH [of ?t] l r p show ?case by simp
qed

lemma fold_zero_nth:
  "i < length t \<Longrightarrow> j < length (t ! i) \<Longrightarrow>
   fold (\<lambda>(i, j) table. if i > j then table[i := (table ! i)[j := Finite 0]] else table) ps t
     ! i ! j =
   (if (i, j) \<in> set ps \<and> i > j then Finite 0 else t ! i ! j)"
proof (induction ps arbitrary: t)
  case Nil
  show ?case by simp
next
  case (Cons p ps)
  obtain a b where p: "p = (a, b)" by (cases p)
  let ?t = "if a > b then t[a := (t ! a)[b := Finite 0]] else t"
  have l: "i < length ?t" using Cons.prems by simp
  have r: "j < length (?t ! i)" using Cons.prems by (simp add: update_cell_length)
  have v: "?t ! i ! j = (if (i, j) = (a, b) \<and> i > j then Finite 0 else t ! i ! j)"
    using Cons.prems by (auto simp: update_cell_nth)
  from Cons.IH [OF l r] v p show ?case by auto
qed

lemma init_table_shape: "well_shaped n_row n_col (init_table n_row n_col)"
  using fold_zero_shape [of "ndrange n_row n_col" "replicate n_row (replicate n_col (Finite 1))"]
  by (simp add: well_shaped_def init_table_def)

lemma init_table_nth:
  "i < n_row \<Longrightarrow> j < n_col \<Longrightarrow>
   init_table n_row n_col ! i ! j = (if i > j then Finite 0 else Finite 1)"
  using fold_zero_nth [of i "replicate n_row (replicate n_col (Finite 1))" j "ndrange n_row n_col"]
  by (simp add: init_table_def ndrange_def)


text \<open>One round.\<close>

lemma row_fit_shape:
  "length row_sum = n_row \<Longrightarrow> well_shaped n_row n_col table \<Longrightarrow>
   well_shaped n_row n_col (row_fit row_sum table)"
  by (simp add: well_shaped_def row_fit_def)

lemma row_fit_nth:
  "length row_sum = length table \<Longrightarrow> i < length table \<Longrightarrow> j < length (table ! i) \<Longrightarrow>
   row_fit row_sum table ! i ! j =
     fl_mul (row_sum ! i) (fl_div (table ! i ! j) (fl_sum (table ! i)))"
  by (simp add: row_fit_def)

lemma col_fit_shape:
  "length table = n_row \<Longrightarrow> well_shaped n_row (length col_sum) (col_fit col_sum table)"
  by (simp add: well_shaped_def col_fit_def Let_def)

lemma col_fit_nth:
  "i < length table \<Longrightarrow> j < length col_sum \<Longrightarrow>
   col_fit col_sum table ! i ! j =
     fl_mul (col_sum ! j) (fl_div (table ! i ! j) (col_sums (length col_sum) table ! j))"
  by (simp add: col_fit_def Let_def)



text \<open>An invariant of the loop holds for its result, with an error that stops the loop.\<close>

lemma fit_loop_rule:
  assumes ret: "fit_loop row_sum col_sum tolerance table row_err = Some result"
    and init: "I table row_err"
    and step: "\<And>t e. I t e \<Longrightarrow> fl_gt e tolerance \<Longrightarrow>
                 I (col_fit col_sum (row_fit row_sum t))
                   (row_error row_sum (col_fit col_sum (row_fit row_sum t)))"
  shows "\<exists>e. I result e \<and> \<not> fl_gt e tolerance"
proof -
  have "row_sum = row_sum \<and> col_sum = col_sum \<and> tolerance = tolerance \<and> I table row_err
          \<longrightarrow> (\<exists>e. I result e \<and> \<not> fl_gt e tolerance)"
  proof (rule fit_loop.raw_induct
      [where P = "\<lambda>r c tol t e res. r = row_sum \<and> c = col_sum \<and> tol = tolerance \<and> I t e
                     \<longrightarrow> (\<exists>e'. I res e' \<and> \<not> fl_gt e' tolerance)", OF _ ret])
    fix f r c tol t e res
    assume IH: "\<And>r c tol t e res. f r c tol t e = Some res \<Longrightarrow>
                  r = row_sum \<and> c = col_sum \<and> tol = tolerance \<and> I t e
                    \<longrightarrow> (\<exists>e'. I res e' \<and> \<not> fl_gt e' tolerance)"
      and eq: "(if fl_gt e tol
                then f r c tol (col_fit c (row_fit r t)) (row_error r (col_fit c (row_fit r t)))
                else Some t) = Some res"
    show "r = row_sum \<and> c = col_sum \<and> tol = tolerance \<and> I t e
            \<longrightarrow> (\<exists>e'. I res e' \<and> \<not> fl_gt e' tolerance)"
    proof
      assume a: "r = row_sum \<and> c = col_sum \<and> tol = tolerance \<and> I t e"
      show "\<exists>e'. I res e' \<and> \<not> fl_gt e' tolerance"
      proof (cases "fl_gt e tol")
        case True
        with eq have "f r c tol (col_fit c (row_fit r t)) (row_error r (col_fit c (row_fit r t)))
                        = Some res" by simp
        from IH [OF this] step [of t e] a True show ?thesis by simp
      next
        case False
        with eq a show ?thesis by auto
      qed
    qed
  qed
  with init show ?thesis by simp
qed

subsection \<open>The assertion and the returned table\<close>

lemmas fit_eval =
  proportional_fit_def init_table_def ndrange_def row_fit_def col_fit_def col_sums_def
  row_error_def row_sums_def fl_sum_def fl_sub_def fl_inf_def Let_def



lemma fit_example_nan2:
  "proportional_fit [Finite 1, Finite 1] [Finite 2] (Finite (1 / 100)) =
     Some (Inr [[NaN], [NaN]])"
  by (simp add: fit_eval fit_loop.simps)

text \<open>
  Claim C6. When the total of the row marginals is not equal to the total of the column
  marginals, \<^verbatim>\<open>_proportional_fit\<close> fails on its assertion with the message that the sums
  are not equal: it returns that error whatever the tolerance, without entering the loop
  and without rescaling either vector.
\<close>

theorem proportional_fit_unequal_totals:
  "\<not> fl_eq (fl_sum row_sum) (fl_sum col_sum) \<Longrightarrow>
   proportional_fit row_sum col_sum tolerance = Some (Inl (AssertionError RowColSubsumNotEqual))"
  by (simp add: proportional_fit_def)

theorem proportional_fit_unequal_totals_witness:
  "proportional_fit [Finite 1, Finite 3] [Finite 3, Finite 2] (Finite (1 / 100)) =
     Some (Inl (AssertionError RowColSubsumNotEqual))"
  using proportional_fit_unequal_totals [of "[Finite 1, Finite 3]" "[Finite 3, Finite 2]" "Finite (1 / 100)"]
  by (simp add: fl_sum_def)






subsection \<open>The rounds of the loop\<close>

lemma fit_loop_stops:
  "\<not> fl_gt e tol \<Longrightarrow> fit_loop r c tol t e = Some t"
  by (subst fit_loop.simps) simp

lemma fit_loop_continues:
  "fl_gt e tol \<Longrightarrow>
   fit_loop r c tol t e =
     fit_loop r c tol (col_fit c (row_fit r t)) (row_error r (col_fit c (row_fit r t)))"
  by (subst fit_loop.simps) simp

lemma fit_loop_unroll:
  "(\<forall>j < k. fl_gt (snd (fit_rounds j r c (t, e))) tol) \<Longrightarrow>
   fit_loop r c tol t e =
     fit_loop r c tol (fst (fit_rounds k r c (t, e))) (snd (fit_rounds k r c (t, e)))"
proof (induction k arbitrary: t e)
  case 0
  show ?case by simp
next
  case (Suc k)
  let ?t = "col_fit c (row_fit r t)"
  let ?e = "row_error r ?t"
  from Suc.prems have "fl_gt (snd (fit_rounds 0 r c (t, e))) tol" by blast
  then have g: "fl_gt e tol" by simp
  have "\<forall>j < k. fl_gt (snd (fit_rounds j r c (?t, ?e))) tol"
  proof (intro allI impI)
    fix j assume "j < k"
    then have "Suc j < Suc k" by simp
    with Suc.prems have "fl_gt (snd (fit_rounds (Suc j) r c (t, e))) tol" by blast
    then show "fl_gt (snd (fit_rounds j r c (?t, ?e))) tol" by simp
  qed
  from Suc.IH [OF this] fit_loop_continues [OF g, of r c t] show ?case by simp
qed

lemma fit_loop_never_stops:
  assumes "\<forall>k. fl_gt (snd (fit_rounds k r c (t, e))) tol"
  shows "fit_loop r c tol t e = None"
proof (cases "fit_loop r c tol t e")
  case None
  then show ?thesis .
next
  case (Some res)
  have "\<not> (\<forall>k. fl_gt (snd (fit_rounds k r c (t, e))) tol)"
  proof (rule fit_loop.raw_induct
      [where P = "\<lambda>r c tol t e res. \<not> (\<forall>k. fl_gt (snd (fit_rounds k r c (t, e))) tol)",
       OF _ Some])
    fix f r c tol t e res
    assume IH: "\<And>r c tol t e res. f r c tol t e = Some res \<Longrightarrow>
                  \<not> (\<forall>k. fl_gt (snd (fit_rounds k r c (t, e))) tol)"
      and eq: "(if fl_gt e tol
                then f r c tol (col_fit c (row_fit r t)) (row_error r (col_fit c (row_fit r t)))
                else Some t) = Some res"
    show "\<not> (\<forall>k. fl_gt (snd (fit_rounds k r c (t, e))) tol)"
    proof
      assume all: "\<forall>k. fl_gt (snd (fit_rounds k r c (t, e))) tol"
      then have "fl_gt (snd (fit_rounds 0 r c (t, e))) tol" by blast
      then have "fl_gt e tol" by simp
      with eq have "f r c tol (col_fit c (row_fit r t))
                      (row_error r (col_fit c (row_fit r t))) = Some res" by simp
      from IH [OF this] obtain k where
        "\<not> fl_gt (snd (fit_rounds k r c (col_fit c (row_fit r t),
                    row_error r (col_fit c (row_fit r t))))) tol" by blast
      then have "\<not> fl_gt (snd (fit_rounds (Suc k) r c (t, e))) tol" by simp
      with all show False by blast
    qed
  qed
  with assms show ?thesis by blast
qed

lemma fit_loop_first_stop:
  assumes "\<exists>k. \<not> fl_gt (snd (fit_rounds k r c (t, e))) tol"
  shows "fit_loop r c tol t e =
           Some (fst (fit_rounds (LEAST k. \<not> fl_gt (snd (fit_rounds k r c (t, e))) tol) r c (t, e)))"
proof -
  let ?k = "LEAST k. \<not> fl_gt (snd (fit_rounds k r c (t, e))) tol"
  from assms have stop: "\<not> fl_gt (snd (fit_rounds ?k r c (t, e))) tol"
    by (rule LeastI_ex)
  have "\<forall>j < ?k. fl_gt (snd (fit_rounds j r c (t, e))) tol"
    using not_less_Least by blast
  from fit_loop_unroll [OF this] fit_loop_stops [OF stop] show ?thesis by simp
qed

text \<open>
  Claim C3, as amended. The loop of \<^verbatim>\<open>_proportional_fit\<close> has no bound on its rounds and
  no error for a fit that does not converge. After the assertion on the totals it returns
  the table of the first round after which the row error is not greater than the tolerance,
  however late that is, and it does not return at all when there is no such round.
\<close>

theorem fit_stops_only_within_tolerance:
  "proportional_fit row_sum col_sum tolerance =
     (if \<not> fl_eq (fl_sum row_sum) (fl_sum col_sum)
      then Some (Inl (AssertionError RowColSubsumNotEqual))
      else if \<exists>k. \<not> fl_gt (error_after k row_sum col_sum) tolerance
      then Some (Inr (table_after (LEAST k. \<not> fl_gt (error_after k row_sum col_sum) tolerance)
                        row_sum col_sum))
      else None)"
proof (cases "fl_eq (fl_sum row_sum) (fl_sum col_sum)")
  case False
  then show ?thesis by (simp add: proportional_fit_def)
next
  case eq: True
  show ?thesis
  proof (cases "\<exists>k. \<not> fl_gt (error_after k row_sum col_sum) tolerance")
    case True
    then have "\<exists>k. \<not> fl_gt (snd (fit_rounds k row_sum col_sum
                        (init_table (length row_sum) (length col_sum), PosInf))) tolerance"
      by (simp add: error_after_def)
    from fit_loop_first_stop [OF this] eq True show ?thesis
      by (simp add: proportional_fit_def error_after_def table_after_def)
  next
    case False
    then have "\<forall>k. fl_gt (snd (fit_rounds k row_sum col_sum
                        (init_table (length row_sum) (length col_sum), PosInf))) tolerance"
      by (simp add: error_after_def)
    from fit_loop_never_stops [OF this] eq False show ?thesis
      by (simp add: proportional_fit_def)
  qed
qed

subsection \<open>An input on which the loop does not stop\<close>

lemma init_table_2x2:
  "init_table (Suc (Suc 0)) (Suc (Suc 0)) = [[Finite 1, Finite 1], [Finite 0, Finite 1]]"
  by (simp add: init_table_def ndrange_def)

lemma round_2x2:
  assumes pos: "0 < a" "0 < b" "0 < d"
    and marg: "0 < r0" "0 < r1" "0 < c1" "r0 < c0"
  shows "\<exists>a' b' d'. 0 < a' \<and> 0 < b' \<and> 0 < d'
           \<and> col_fit [Finite c0, Finite c1]
                (row_fit [Finite r0, Finite r1] [[Finite a, Finite b], [Finite 0, Finite d]]) =
               [[Finite a', Finite b'], [Finite 0, Finite d']]
           \<and> row_error [Finite r0, Finite r1] [[Finite a', Finite b'], [Finite 0, Finite d']] =
               Finite ((a' + b' - r0)\<^sup>2 + (d' - r1)\<^sup>2)
           \<and> c0 - r0 < a' + b' - r0"
proof -
  define a1 where "a1 = r0 * (a / (a + b))"
  define b1 where "b1 = r0 * (b / (a + b))"
  define b2 where "b2 = c1 * (b1 / (b1 + r1))"
  define d2 where "d2 = c1 * (r1 / (b1 + r1))"
  from pos have ab: "a + b \<noteq> 0" and d: "d \<noteq> 0" by simp_all
  from pos marg have a1: "0 < a1" and b1: "0 < b1" by (simp_all add: a1_def b1_def)
  from b1 marg have s1: "b1 + r1 \<noteq> 0" and s1': "0 < b1 + r1" by simp_all
  from a1 have a1n: "a1 \<noteq> 0" by simp
  have rf: "row_fit [Finite r0, Finite r1] [[Finite a, Finite b], [Finite 0, Finite d]] =
              [[Finite a1, Finite b1], [Finite 0, Finite r1]]"
    using ab d by (simp add: row_fit_def fl_sum_def a1_def b1_def)
  have cf: "col_fit [Finite c0, Finite c1] [[Finite a1, Finite b1], [Finite 0, Finite r1]] =
              [[Finite c0, Finite b2], [Finite 0, Finite d2]]"
    using a1n s1 by (simp add: col_fit_def col_sums_def fl_sum_def Let_def b2_def d2_def)
  have er: "row_error [Finite r0, Finite r1] [[Finite c0, Finite b2], [Finite 0, Finite d2]] =
              Finite ((c0 + b2 - r0)\<^sup>2 + (d2 - r1)\<^sup>2)"
    by (simp add: row_error_def row_sums_def fl_sum_def fl_sub_def power2_eq_square)
  from b1 s1' marg have b2: "0 < b2" and d2: "0 < d2" by (simp_all add: b2_def d2_def)
  from marg have c0: "0 < c0" by simp
  from rf cf er b2 d2 c0 show ?thesis by auto
qed

lemma diverges_2x2_step:
  assumes marg: "0 < r0" "0 < r1" "0 < c1" "r0 < c0" and eps: "eps < (c0 - r0)\<^sup>2"
    and inv: "\<exists>a b d. 0 < a \<and> 0 < b \<and> 0 < d \<and> t = [[Finite a, Finite b], [Finite 0, Finite d]]"
  shows "(\<exists>a b d. 0 < a \<and> 0 < b \<and> 0 < d
            \<and> col_fit [Finite c0, Finite c1] (row_fit [Finite r0, Finite r1] t) =
                [[Finite a, Finite b], [Finite 0, Finite d]])
       \<and> fl_gt (row_error [Finite r0, Finite r1]
                  (col_fit [Finite c0, Finite c1] (row_fit [Finite r0, Finite r1] t)))
           (Finite eps)"
proof -
  from inv obtain a b d where p: "0 < a" "0 < b" "0 < d"
    and t: "t = [[Finite a, Finite b], [Finite 0, Finite d]]" by blast
  from round_2x2 [OF p marg] obtain a' b' d' where
    q: "0 < a'" "0 < b'" "0 < d'"
    and c: "col_fit [Finite c0, Finite c1]
              (row_fit [Finite r0, Finite r1] [[Finite a, Finite b], [Finite 0, Finite d]]) =
            [[Finite a', Finite b'], [Finite 0, Finite d']]"
    and e: "row_error [Finite r0, Finite r1] [[Finite a', Finite b'], [Finite 0, Finite d']] =
            Finite ((a' + b' - r0)\<^sup>2 + (d' - r1)\<^sup>2)"
    and g: "c0 - r0 < a' + b' - r0" by blast
  from marg have "0 \<le> c0 - r0" by simp
  with g have "(c0 - r0)\<^sup>2 < (a' + b' - r0)\<^sup>2"
    by (intro power_strict_mono) simp_all
  moreover have "0 \<le> (d' - r1)\<^sup>2" by simp
  ultimately have "eps < (a' + b' - r0)\<^sup>2 + (d' - r1)\<^sup>2" using eps by linarith
  with q c e t show ?thesis by auto
qed

lemma diverges_2x2_rounds:
  assumes marg: "0 < r0" "0 < r1" "0 < c1" "r0 < c0" and eps: "eps < (c0 - r0)\<^sup>2"
  shows "(\<exists>a b d. 0 < a \<and> 0 < b \<and> 0 < d \<and> t = [[Finite a, Finite b], [Finite 0, Finite d]])
         \<Longrightarrow> fl_gt e (Finite eps) \<Longrightarrow>
         fl_gt (snd (fit_rounds k [Finite r0, Finite r1] [Finite c0, Finite c1] (t, e))) (Finite eps)"
proof (induction k arbitrary: t e)
  case 0
  then show ?case by simp
next
  case (Suc k)
  from diverges_2x2_step [OF marg eps Suc.prems(1)] Suc.IH show ?case by simp
qed

lemma diverges_2x2:
  assumes marg: "0 < r0" "0 < r1" "0 < c1" "r0 < c0" and eps: "eps < (c0 - r0)\<^sup>2"
  shows "fl_gt (error_after k [Finite r0, Finite r1] [Finite c0, Finite c1]) (Finite eps)"
  unfolding error_after_def
  by (rule diverges_2x2_rounds [OF marg eps]) (auto simp: init_table_2x2)

text \<open>
  Claim C3 says that the fitter never loops forever. For the row marginals \<open>1, 3\<close> and the
  column marginals \<open>3, 1\<close> the first column holds one free cell, which every column step
  sets to \<open>3\<close>, so the first row sum stays above \<open>3\<close> against its marginal \<open>1\<close> and the row
  error above \<open>4\<close>: the call does not return.
\<close>

theorem fit_never_returns:
  "proportional_fit [Finite 1, Finite 3] [Finite 3, Finite 1] (Finite (1 / 100)) = None"
proof -
  have "fl_gt (error_after k [Finite 1, Finite 3] [Finite 3, Finite 1]) (Finite (1 / 100))" for k
    by (rule diverges_2x2) (simp_all add: power2_eq_square)
  then have "\<forall>k. fl_gt (snd (fit_rounds k [Finite 1, Finite 3] [Finite 3, Finite 1]
                 (init_table (length [Finite 1, Finite 3]) (length [Finite 3, Finite 1]), PosInf)))
               (Finite (1 / 100))"
    by (simp add: error_after_def)
  from fit_loop_never_stops [OF this] show ?thesis
    by (simp add: proportional_fit_def fl_sum_def)
qed

subsection \<open>A row of zeros\<close>

lemma funpow_add_zero: "((\<lambda>acc. fl_add acc (Finite 0)) ^^ m) (Finite 0) = Finite 0"
  by (induction m) simp_all

lemma fl_sum_zeros: "fl_sum (replicate m (Finite 0)) = Finite 0"
  by (simp add: fl_sum_def funpow_add_zero)

lemma fl_sum_nans: "0 < m \<Longrightarrow> fl_sum (replicate m NaN) = NaN"
  by (rule fl_sum_has_NaN) simp

lemma init_table_last_row:
  assumes "n_col < n_row"
  shows "init_table n_row n_col ! (n_row - 1) = replicate n_col (Finite 0)"
proof (rule nth_equalityI)
  from assms init_table_shape [of n_row n_col]
  show "length (init_table n_row n_col ! (n_row - 1)) = length (replicate n_col (Finite 0))"
    by (simp add: well_shaped_def)
next
  fix j
  assume "j < length (init_table n_row n_col ! (n_row - 1))"
  with assms init_table_shape [of n_row n_col] have j: "j < n_col"
    by (simp add: well_shaped_def)
  with assms show "init_table n_row n_col ! (n_row - 1) ! j = replicate n_col (Finite 0) ! j"
    by (simp add: init_table_nth)
qed

lemma nan_round:
  assumes cols: "0 < length col_sum" and rows: "length col_sum < length row_sum"
  shows "col_fit col_sum (row_fit row_sum (init_table (length row_sum) (length col_sum))) =
           replicate (length row_sum) (replicate (length col_sum) NaN)"
proof -
  let ?n = "length row_sum" and ?m = "length col_sum"
  let ?t0 = "init_table ?n ?m"
  let ?t1 = "row_fit row_sum ?t0"
  have s0: "well_shaped ?n ?m ?t0" by (rule init_table_shape)
  then have l0: "length row_sum = length ?t0" by (simp add: well_shaped_def)
  have s1: "well_shaped ?n ?m ?t1" using s0 by (intro row_fit_shape) simp_all
  then have l1: "length ?t1 = ?n" and r1: "\<forall>i < ?n. length (?t1 ! i) = ?m"
    by (simp_all add: well_shaped_def)
  from rows have last: "?n - 1 < ?n" by simp
  have nan_last: "?t1 ! (?n - 1) ! j = NaN" if "j < ?m" for j
  proof -
    from that s0 last have "j < length (?t0 ! (?n - 1))" by (simp add: well_shaped_def)
    from row_fit_nth [OF l0 _ this] last l0
    have "?t1 ! (?n - 1) ! j =
            fl_mul (row_sum ! (?n - 1)) (fl_div (?t0 ! (?n - 1) ! j) (fl_sum (?t0 ! (?n - 1))))"
      by simp
    also have "\<dots> =
            fl_mul (row_sum ! (?n - 1))
              (fl_div (replicate ?m (Finite 0) ! j) (fl_sum (replicate ?m (Finite 0))))"
      by (simp only: init_table_last_row [OF rows])
    also have "\<dots> = NaN"
      using that by (simp add: fl_sum_zeros)
    finally show ?thesis .
  qed
  have col_nan: "col_sums ?m ?t1 ! j = NaN" if "j < ?m" for j
  proof -
    have "?t1 ! (?n - 1) \<in> set ?t1" using last l1 by (metis nth_mem)
    then have "?t1 ! (?n - 1) ! j \<in> set (map (\<lambda>row. row ! j) ?t1)" by simp
    with nan_last [OF that] have "NaN \<in> set (map (\<lambda>row. row ! j) ?t1)" by simp
    then have "fl_sum (map (\<lambda>row. row ! j) ?t1) = NaN" by (rule fl_sum_has_NaN)
    with that show ?thesis by (simp add: col_sums_def)
  qed
  show ?thesis
  proof (rule nth_equalityI)
    show "length (col_fit col_sum ?t1) = length (replicate ?n (replicate ?m NaN))"
      using l1 by (simp add: col_fit_def Let_def)
  next
    fix i
    assume "i < length (col_fit col_sum ?t1)"
    then have i: "i < length ?t1" by (simp add: col_fit_def Let_def)
    with l1 have i': "i < ?n" by simp
    have "col_fit col_sum ?t1 ! i = replicate ?m NaN"
    proof (rule nth_equalityI)
      show "length (col_fit col_sum ?t1 ! i) = length (replicate ?m NaN)"
        using i by (simp add: col_fit_def Let_def)
    next
      fix j
      assume "j < length (col_fit col_sum ?t1 ! i)"
      with i have j: "j < ?m" by (simp add: col_fit_def Let_def)
      from col_fit_nth [OF i j] col_nan [OF j] j
      show "col_fit col_sum ?t1 ! i ! j = replicate ?m NaN ! j" by simp
    qed
    with i' show "col_fit col_sum ?t1 ! i = replicate ?n (replicate ?m NaN) ! i" by simp
  qed
qed

lemma row_error_nans:
  assumes "0 < m" "0 < length row_sum"
  shows "row_error row_sum (replicate (length row_sum) (replicate m NaN)) = NaN"
proof -
  let ?n = "length row_sum"
  let ?sq = "map (\<lambda>d. fl_mul d d)
               (map (\<lambda>(s, r). fl_sub s r)
                  (zip (row_sums (replicate ?n (replicate m NaN))) row_sum))"
  have len: "length ?sq = ?n" by (simp add: row_sums_def)
  have "?sq ! 0 = NaN"
    using assms by (simp add: row_sums_def fl_sum_nans fl_sub_def)
  moreover have "?sq ! 0 \<in> set ?sq" using assms len by (metis nth_mem)
  ultimately have "NaN \<in> set ?sq" by simp
  then have "fl_sum ?sq = NaN" by (rule fl_sum_has_NaN)
  then show ?thesis by (simp add: row_error_def Let_def)
qed

text \<open>
  Claim C7, as amended. No division of \<^verbatim>\<open>_proportional_fit\<close> is guarded. With more rows
  than columns (and at least one column) the last row of the initial table is all zero;
  for equal totals and any finite tolerance the call raises no error: the row step divides
  \<open>0\<close> by \<open>0\<close>, and after one round the fitter returns a table whose every cell is NaN.
\<close>

theorem zero_row_gives_nan_table:
  assumes cols: "0 < length col_sum" and rows: "length col_sum < length row_sum"
    and totals: "fl_eq (fl_sum row_sum) (fl_sum col_sum)"
  shows "proportional_fit row_sum col_sum (Finite eps) =
           Some (Inr (replicate (length row_sum) (replicate (length col_sum) NaN)))"
proof -
  let ?nan = "replicate (length row_sum) (replicate (length col_sum) NaN)"
  from rows have n: "0 < length row_sum" by (cases row_sum) simp_all
  have "fit_loop row_sum col_sum (Finite eps)
          (init_table (length row_sum) (length col_sum)) PosInf =
        fit_loop row_sum col_sum (Finite eps) ?nan (row_error row_sum ?nan)"
    by (subst fit_loop_continues) (simp_all add: nan_round [OF cols rows])
  also have "\<dots> = Some ?nan"
    by (rule fit_loop_stops) (simp add: row_error_nans [OF cols n])
  finally show ?thesis using totals by (simp add: proportional_fit_def)
qed

theorem zero_row_gives_nan_table_witness:
  "proportional_fit [Finite 1, Finite 2, Finite 3] [Finite 4, Finite 2] (Finite (1 / 100)) =
     Some (Inr [[NaN, NaN], [NaN, NaN], [NaN, NaN]])"
  using zero_row_gives_nan_table [of "[Finite 4, Finite 2]" "[Finite 1, Finite 2, Finite 3]" "1 / 100"]
  by (simp add: fl_sum_def numeral_eq_Suc)

text \<open>
  Claim C7 says that an all-zero row with a nonzero marginal is a fatal error. For the row
  marginals \<open>1, 1\<close> and the column marginal \<open>2\<close> the second row of the initial table sums to
  \<open>0\<close> against the marginal \<open>1\<close>, and the call returns a table of NaN, not an error.
\<close>

theorem zero_row_is_not_guarded:
  "row_sums (init_table 2 1) = [Finite 1, Finite 0]
   \<and> proportional_fit [Finite 1, Finite 1] [Finite 2] (Finite (1 / 100)) =
       Some (Inr [[NaN], [NaN]])"
  by (simp add: fit_example_nan2 row_sums_def fl_sum_def init_table_def ndrange_def numeral_2_eq_2)

section \<open>Properties of \<^verbatim>\<open>create_households\<close>\<close>

subsection \<open>Errors and counts of the loops\<close>

lemma add_adults_error: "add_adults n prog st = Inl e \<Longrightarrow> e = StopIteration"
proof (induction n arbitrary: st)
  case 0
  then show ?case by simp
next
  case (Suc n)
  obtain hh self its where st: "st = (hh, self, its)" by (cases st)
  show ?case
  proof (cases "it_office its")
    case Nil
    with Suc.prems st show ?thesis by (simp add: next_item_def)
  next
    case (Cons office' rest)
    with Suc.prems st Suc.IH show ?thesis
      by (auto simp: next_item_def add_object2pool_def add_adult_def Let_def)
  qed
qed

lemma add_children_error: "add_children n prog st = Inl e \<Longrightarrow> e = StopIteration"
proof (induction n arbitrary: st)
  case 0
  then show ?case by simp
next
  case (Suc n)
  obtain hh self its where st: "st = (hh, self, its)" by (cases st)
  show ?case
  proof (cases "it_school its")
    case Nil
    with Suc.prems st show ?thesis by (simp add: next_item_def)
  next
    case (Cons school' rest)
    with Suc.prems st Suc.IH show ?thesis
      by (auto simp: next_item_def add_object2pool_def add_child_def Let_def)
  qed
qed

lemma add_household_error:
  "add_household self size' fleet demand' its = Inl e \<Longrightarrow> e = StopIteration"
  by (auto simp: add_household_def next_item_def add_object2pool_def Let_def
        split: list.splits sum.splits prod.splits
        dest: add_adults_error add_children_error)

lemma add_households_error:
  "add_households n size' fleet demand' st = Inl e \<Longrightarrow> e = StopIteration"
proof (induction n arbitrary: st)
  case 0
  then show ?case by simp
next
  case (Suc n)
  obtain self its where st: "st = (self, its)" by (cases st)
  with Suc.prems Suc.IH show ?case
    by (auto split: sum.splits dest: add_household_error)
qed

lemma add_households_props:
  "add_households n size' fleet demand' (self, its) = Inr (self', its') \<Longrightarrow>
     length (households self') = length (households self) + n
     \<and> n \<le> length (it_residence its)
     \<and> it_residence its' = drop n (it_residence its)
     \<and> size_freq self' = size_freq self \<and> fleet_freq self' = fleet_freq self"
proof (induction n arbitrary: self its)
  case 0
  then show ?case by simp
next
  case (Suc n)
  from Suc.prems obtain hh self1 its1 where
    one: "add_household self size' fleet demand' its = Inr (hh, self1, its1)"
    and rest: "add_households n size' fleet demand' (self1, its1) = Inr (self', its')"
    by (auto split: sum.splits)
  from add_household_props(1) [OF one] obtain residence where
    r: "it_residence its = residence # it_residence its1" by auto
  from add_household_props(8,9) [OF one] Suc.IH [OF rest] r show ?case by auto
qed

lemma create_cells_props:
  "create_cells cells table demand' (self, its) = Inr (self', its') \<Longrightarrow>
     length (households self') =
       length (households self) + sum_list (map (\<lambda>(i, j). nat (cell_round (table ! i ! j))) cells)
     \<and> sum_list (map (\<lambda>(i, j). nat (cell_round (table ! i ! j))) cells)
          \<le> length (it_residence its)
     \<and> it_residence its' =
          drop (sum_list (map (\<lambda>(i, j). nat (cell_round (table ! i ! j))) cells))
            (it_residence its)
     \<and> size_freq self' = size_freq self \<and> fleet_freq self' = fleet_freq self"
proof (induction cells arbitrary: self its)
  case Nil
  then show ?case by simp
next
  case (Cons cell cells)
  obtain i j where cell: "cell = (i, j)" by (cases cell)
  from Cons.prems cell obtain n self1 its1 where
    n: "int_round (table ! i ! j) = Inr n"
    and one: "add_households (nat n) (fst (size_freq self ! j)) (fst (fleet_freq self ! i))
                demand' (self, its) = Inr (self1, its1)"
    and rest: "create_cells cells table demand' (self1, its1) = Inr (self', its')"
    by (auto split: sum.splits)
  from n have c: "cell_round (table ! i ! j) = n" by (simp add: cell_round_def)
  from add_households_props [OF one] Cons.IH [OF rest] c cell show ?case
    by (auto simp: drop_drop add.commute)
qed

lemma create_cells_error:
  "create_cells cells table demand' st = Inl e \<Longrightarrow>
     e = StopIteration \<or> (\<exists>(i, j) \<in> set cells. int_round (table ! i ! j) = Inl e)"
proof (induction cells arbitrary: st)
  case Nil
  then show ?case by simp
next
  case (Cons cell cells)
  obtain i j where cell: "cell = (i, j)" by (cases cell)
  obtain self its where st: "st = (self, its)" by (cases st)
  from Cons.prems cell st Cons.IH show ?case
    by (auto split: sum.splits dest: add_households_error)
qed

lemma get_assignments_length:
  assumes "get_assignments capacity total' g = Inr (xs, g')" and "0 \<le> total'"
  shows "int (length xs) = total'"
proof -
  obtain assignment where ra: "rand_assignment capacity g = (assignment, g')"
    and xs: "xs = slice_to assignment total'"
    and enough: "total' \<le> sum_list (map snd capacity)"
    using assms(1) by (auto simp: get_assignments_def Let_def split: if_splits prod.splits)
  have "length assignment = sum_list (map (\<lambda>(slot, c). nat c) capacity)"
    using rand_assignment_length [of capacity g] ra by simp
  with enough pool_length_ge [of capacity] have "total' \<le> int (length assignment)" by simp
  with assms(2) xs show ?thesis by (simp add: slice_to_def)
qed

subsection \<open>A table without negative cells\<close>

lemma nonneg_fl_add: "nonneg_fl a \<Longrightarrow> nonneg_fl b \<Longrightarrow> nonneg_fl (fl_add a b)"
  by (cases a; cases b) simp_all

lemma nonneg_fl_mul: "nonneg_fl a \<Longrightarrow> nonneg_fl b \<Longrightarrow> nonneg_fl (fl_mul a b)"
  by (cases a; cases b) (auto simp: fl_inf_def split: if_splits)

lemma nonneg_fl_div: "nonneg_fl a \<Longrightarrow> nonneg_fl b \<Longrightarrow> nonneg_fl (fl_div a b)"
  by (cases a; cases b) (auto simp: fl_inf_def split: if_splits)

lemma nonneg_fold_add:
  "nonneg_fl a \<Longrightarrow> \<forall>x \<in> set xs. nonneg_fl x \<Longrightarrow>
   nonneg_fl (fold (\<lambda>x acc. fl_add acc x) xs a)"
  by (induction xs arbitrary: a) (simp_all add: nonneg_fl_add)

lemma nonneg_fl_sum: "\<forall>x \<in> set xs. nonneg_fl x \<Longrightarrow> nonneg_fl (fl_sum xs)"
  unfolding fl_sum_def by (rule nonneg_fold_add) simp_all

lemma fl_add_Finite: "fl_add a b = Finite s \<Longrightarrow> (\<exists>u. a = Finite u) \<and> (\<exists>v. b = Finite v)"
  by (cases a; cases b) simp_all

lemma fold_add_acc_Finite:
  "fold (\<lambda>x acc. fl_add acc x) xs a = Finite s \<Longrightarrow> \<exists>u. a = Finite u"
proof (induction xs arbitrary: a)
  case Nil
  then show ?case by simp
next
  case (Cons x xs)
  from Cons.prems have "fold (\<lambda>x acc. fl_add acc x) xs (fl_add a x) = Finite s" by simp
  from Cons.IH [OF this] obtain u where "fl_add a x = Finite u" by blast
  from fl_add_Finite [OF this] show ?case by blast
qed

lemma fold_add_Finite:
  "fold (\<lambda>x acc. fl_add acc x) xs a = Finite s \<Longrightarrow> \<forall>x \<in> set xs. \<exists>v. x = Finite v"
proof (induction xs arbitrary: a)
  case Nil
  show ?case by simp
next
  case (Cons x xs)
  from Cons.prems have f: "fold (\<lambda>x acc. fl_add acc x) xs (fl_add a x) = Finite s" by simp
  from fold_add_acc_Finite [OF f] obtain u where "fl_add a x = Finite u" by blast
  from fl_add_Finite [OF this] Cons.IH [OF f] show ?case by auto
qed

lemma fl_sum_Finite: "fl_sum xs = Finite s \<Longrightarrow> \<forall>x \<in> set xs. \<exists>v. x = Finite v"
  unfolding fl_sum_def by (rule fold_add_Finite)

lemma row_nonneg:
  "nonneg_table table \<Longrightarrow> i < length table \<Longrightarrow> \<forall>x \<in> set (table ! i). nonneg_fl x"
  by (auto simp: nonneg_table_def in_set_conv_nth)

lemma init_table_nonneg: "nonneg_table (init_table n_row n_col)"
  using init_table_shape [of n_row n_col]
  by (simp add: nonneg_table_def well_shaped_def init_table_nth)

lemma row_fit_nonneg:
  assumes len: "length row_sum = length table"
    and marg: "\<forall>r \<in> set row_sum. nonneg_fl r"
    and tab: "nonneg_table table"
  shows "nonneg_table (row_fit row_sum table)"
  unfolding nonneg_table_def
proof (intro allI impI)
  fix i j
  assume "i < length (row_fit row_sum table)" and j: "j < length (row_fit row_sum table ! i)"
  with len have i: "i < length table" by (simp add: row_fit_def)
  with j len have j': "j < length (table ! i)" by (simp add: row_fit_def)
  from marg i len have "nonneg_fl (row_sum ! i)" by simp
  moreover from tab i j' have "nonneg_fl (table ! i ! j)" by (simp add: nonneg_table_def)
  moreover have "nonneg_fl (fl_sum (table ! i))"
    using row_nonneg [OF tab i] by (rule nonneg_fl_sum)
  ultimately show "nonneg_fl (row_fit row_sum table ! i ! j)"
    unfolding row_fit_nth [OF len i j'] by (intro nonneg_fl_mul nonneg_fl_div)
qed

lemma col_fit_nonneg:
  assumes shape: "well_shaped n_row (length col_sum) table"
    and marg: "\<forall>c \<in> set col_sum. nonneg_fl c"
    and tab: "nonneg_table table"
  shows "nonneg_table (col_fit col_sum table)"
  unfolding nonneg_table_def
proof (intro allI impI)
  fix i j
  assume "i < length (col_fit col_sum table)" and j: "j < length (col_fit col_sum table ! i)"
  then have i: "i < length table" by (simp add: col_fit_def Let_def)
  with j have j': "j < length col_sum" by (simp add: col_fit_def Let_def)
  from marg j' have "nonneg_fl (col_sum ! j)" by simp
  moreover from shape tab i j' have "nonneg_fl (table ! i ! j)"
    by (simp add: nonneg_table_def well_shaped_def)
  moreover have "nonneg_fl (col_sums (length col_sum) table ! j)"
  proof -
    have "\<forall>x \<in> set (map (\<lambda>row. row ! j) table). nonneg_fl x"
      using shape tab j' by (auto simp: nonneg_table_def well_shaped_def in_set_conv_nth)
    then have "nonneg_fl (fl_sum (map (\<lambda>row. row ! j) table))" by (rule nonneg_fl_sum)
    with j' show ?thesis by (simp add: col_sums_def)
  qed
  ultimately show "nonneg_fl (col_fit col_sum table ! i ! j)"
    unfolding col_fit_nth [OF i j'] by (intro nonneg_fl_mul nonneg_fl_div)
qed

lemma proportional_fit_nonneg:
  assumes ret: "proportional_fit row_sum col_sum tolerance = Some (Inr table)"
    and rows: "\<forall>r \<in> set row_sum. nonneg_fl r"
    and cols: "\<forall>c \<in> set col_sum. nonneg_fl c"
  shows "well_shaped (length row_sum) (length col_sum) table \<and> nonneg_table table"
proof -
  let ?I = "\<lambda>t (e::fl). well_shaped (length row_sum) (length col_sum) t \<and> nonneg_table t"
  from ret have loop: "fit_loop row_sum col_sum tolerance
                         (init_table (length row_sum) (length col_sum)) PosInf = Some table"
    by (auto simp: proportional_fit_def Let_def split: if_splits)
  have "\<exists>e. ?I table e \<and> \<not> fl_gt e tolerance"
  proof (rule fit_loop_rule [where I = ?I, OF loop])
    show "?I (init_table (length row_sum) (length col_sum)) PosInf"
      by (simp add: init_table_shape init_table_nonneg)
  next
    fix t e
    assume a: "?I t e"
    then have l: "length row_sum = length t" by (simp add: well_shaped_def)
    have s1: "well_shaped (length row_sum) (length col_sum) (row_fit row_sum t)"
      using a by (intro row_fit_shape) simp_all
    have n1: "nonneg_table (row_fit row_sum t)"
      using l rows a by (intro row_fit_nonneg) simp_all
    have "well_shaped (length row_sum) (length col_sum) (col_fit col_sum (row_fit row_sum t))"
      using s1 by (intro col_fit_shape) (simp add: well_shaped_def)
    moreover have "nonneg_table (col_fit col_sum (row_fit row_sum t))"
      using s1 cols n1 by (rule col_fit_nonneg)
    ultimately show "?I (col_fit col_sum (row_fit row_sum t))
                        (row_error row_sum (col_fit col_sum (row_fit row_sum t)))"
      by simp
  qed
  then show ?thesis by blast
qed

lemma py_round_nonneg: "0 \<le> v \<Longrightarrow> 0 \<le> py_round v"
  by (simp add: py_round_def)

lemma cell_round_nonneg: "nonneg_fl x \<Longrightarrow> 0 \<le> cell_round x"
  by (cases x) (simp_all add: cell_round_def py_round_nonneg)

lemma ndrange_set: "set (ndrange n_row n_col) = {0..<n_row} \<times> {0..<n_col}"
  by (simp add: ndrange_def)

lemma cells_rounded_nat:
  assumes "well_shaped n_row n_col table" "nonneg_table table"
  shows "int (sum_list (map (\<lambda>(i, j). nat (cell_round (table ! i ! j))) (ndrange n_row n_col))) =
           cells_rounded table n_row n_col"
proof -
  have "\<forall>(i, j) \<in> set (ndrange n_row n_col). 0 \<le> cell_round (table ! i ! j)"
    using assms by (auto simp: ndrange_set well_shaped_def nonneg_table_def cell_round_nonneg)
  then have "int (sum_list (map (\<lambda>(i, j). nat (cell_round (table ! i ! j))) cells)) =
               sum_list (map (\<lambda>(i, j). cell_round (table ! i ! j)) cells)"
    if "set cells \<subseteq> set (ndrange n_row n_col)" for cells
    using that by (induction cells) auto
  then show ?thesis by (simp add: cells_rounded_def)
qed

lemma table_total_nonneg:
  assumes "nonneg_table table" "int_round (fl_sum (concat table)) = Inr hhnum"
  shows "0 \<le> hhnum"
proof -
  have "\<forall>x \<in> set (concat table). nonneg_fl x"
    using assms(1) by (auto simp: nonneg_table_def in_set_conv_nth)
  then have "nonneg_fl (fl_sum (concat table))" by (rule nonneg_fl_sum)
  with assms(2) show ?thesis
    by (cases "fl_sum (concat table)") (auto simp: py_round_nonneg)
qed

lemma table_total_cells:
  assumes "well_shaped n_row n_col table" "int_round (fl_sum (concat table)) = Inr hhnum"
    and "(i, j) \<in> set (ndrange n_row n_col)"
  shows "\<exists>n. int_round (table ! i ! j) = Inr n"
proof -
  from assms(2) obtain s where "fl_sum (concat table) = Finite s"
    by (cases "fl_sum (concat table)") simp_all
  then have fin: "\<forall>x \<in> set (concat table). \<exists>v. x = Finite v" by (rule fl_sum_Finite)
  from assms(1,3) have "i < length table" "j < length (table ! i)"
    by (simp_all add: ndrange_set well_shaped_def)
  then have "table ! i \<in> set table" and "table ! i ! j \<in> set (table ! i)"
    by (simp_all only: nth_mem)
  then have "table ! i ! j \<in> set (concat table)" by auto
  with fin obtain v where "table ! i ! j = Finite v" by blast
  then show ?thesis by simp
qed

subsection \<open>The run after the fit\<close>

lemma create_from_table_complete:
  assumes "create_from_table self land' demand' table g = Inr (self', g')"
  shows "\<exists>hhnum g1 residences g2 programs' offices schools its'.
           int_round (fl_sum (concat table)) = Inr hhnum
         \<and> get_assignments (get_capacities land' ''home'') hhnum g1 = Inr (residences, g2)
         \<and> create_cells (ndrange (length (fleet_freq self)) (length (size_freq self)))
              table demand'
              (self, \<lparr>it_program = programs', it_residence = residences,
                      it_office = offices, it_school = schools\<rparr>) = Inr (self', its')"
  using assms
  by (simp add: create_from_table_def Let_def split: sum.splits prod.splits) blast

lemma get_assignments_succeeds:
  "total' \<le> sum_list (map snd capacity) \<Longrightarrow>
   \<exists>xs g'. get_assignments capacity total' g = Inr (xs, g')"
  by (simp add: get_assignments_def split: prod.splits)

lemma create_from_table_stops:
  assumes err: "create_from_table self land' demand' table g = Inl e"
    and hh: "int_round (fl_sum (concat table)) = Inr hhnum"
    and fin: "\<forall>(i, j) \<in> set (ndrange (length (fleet_freq self)) (length (size_freq self))).
               \<exists>n. int_round (table ! i ! j) = Inr n"
    and slots: "enough_slots self land' demand' hhnum"
  shows "e = StopIteration"
proof -
  let ?wk = "sum_list (map (\<lambda>(size', freq). (if size' > 3 then 2 else size') * freq)
               (size_freq self))"
  let ?st = "sum_list (map (\<lambda>(size', freq). (if size' < 3 then 0 else size' - 2) * freq)
               (size_freq self))"
  from slots obtain pairs where
    pairs: "program_pairs demand' (prog_freq self) = Inr pairs"
    and c1: "hhnum \<le> sum_list (map snd (dict_of pairs))"
    and c2: "hhnum \<le> sum_list (map snd (get_capacities land' ''home''))"
    and c3: "?wk \<le> sum_list (map snd (get_capacities land' ''work''))"
    and c4: "?st \<le> sum_list (map snd (get_capacities land' ''school''))"
    by (auto simp: enough_slots_def split: sum.splits)
  from get_assignments_succeeds [OF c1] obtain programs' g1 where
    a1: "get_assignments (dict_of pairs) hhnum g = Inr (programs', g1)" by blast
  from get_assignments_succeeds [OF c2] obtain residences g2 where
    a2: "get_assignments (get_capacities land' ''home'') hhnum g1 = Inr (residences, g2)"
    by blast
  from get_assignments_succeeds [OF c3] obtain offices g3 where
    a3: "get_assignments (get_capacities land' ''work'') ?wk g2 = Inr (offices, g3)" by blast
  from get_assignments_succeeds [OF c4] obtain schools g4 where
    a4: "get_assignments (get_capacities land' ''school'') ?st g3 = Inr (schools, g4)" by blast
  from err have "create_cells (ndrange (length (fleet_freq self)) (length (size_freq self)))
                   table demand'
                   (self, \<lparr>it_program = programs', it_residence = residences,
                           it_office = offices, it_school = schools\<rparr>) = Inl e"
    by (simp add: create_from_table_def Let_def hh pairs a1 a2 a3 a4 split: sum.splits prod.splits)
  from create_cells_error [OF this] fin show ?thesis by auto
qed

lemma created_count:
  assumes freq: "\<forall>(label, freq) \<in> set (fleet_freq self) \<union> set (size_freq self). 0 \<le> freq"
    and fit: "proportional_fit (fleet_array self) (size_array self) (Finite (1 / 100)) =
                Some (Inr table)"
    and run: "create_households self land' demand' g = Some (Inr (self', g'))"
  shows "int (length (households self')) =
           int (length (households self))
           + cells_rounded table (length (fleet_freq self)) (length (size_freq self))"
    and "\<exists>hhnum. int_round (fl_sum (concat table)) = Inr hhnum
           \<and> cells_rounded table (length (fleet_freq self)) (length (size_freq self)) \<le> hhnum"
proof -
  let ?n = "length (fleet_freq self)" and ?m = "length (size_freq self)"
  let ?K = "sum_list (map (\<lambda>(i, j). nat (cell_round (table ! i ! j))) (ndrange ?n ?m))"
  from freq have "\<forall>r \<in> set (fleet_array self). nonneg_fl r"
    and "\<forall>c \<in> set (size_array self). nonneg_fl c"
    by (fastforce simp: fleet_array_def size_array_def)+
  from proportional_fit_nonneg [OF fit this]
  have shape: "well_shaped ?n ?m table" and nonneg: "nonneg_table table"
    by (simp_all add: fleet_array_def size_array_def)
  from run fit have "create_from_table self land' demand' table g = Inr (self', g')"
    by (simp add: create_households_def)
  from create_from_table_complete [OF this]
  obtain hhnum g1 residences g2 programs' offices schools its' where
    hh: "int_round (fl_sum (concat table)) = Inr hhnum"
    and res: "get_assignments (get_capacities land' ''home'') hhnum g1 = Inr (residences, g2)"
    and cells: "create_cells (ndrange ?n ?m) table demand'
                  (self, \<lparr>it_program = programs', it_residence = residences,
                          it_office = offices, it_school = schools\<rparr>) = Inr (self', its')"
    by blast
  from create_cells_props [OF cells]
  have len: "length (households self') = length (households self) + ?K"
    and le: "?K \<le> length residences" by simp_all
  have K: "int ?K = cells_rounded table ?n ?m"
    using shape nonneg by (rule cells_rounded_nat)
  from len K show "int (length (households self')) =
      int (length (households self)) + cells_rounded table ?n ?m" by simp
  from table_total_nonneg [OF nonneg hh] have "0 \<le> hhnum" .
  from get_assignments_length [OF res this] le K have "cells_rounded table ?n ?m \<le> hhnum"
    by simp
  with hh show "\<exists>hhnum. int_round (fl_sum (concat table)) = Inr hhnum
           \<and> cells_rounded table ?n ?m \<le> hhnum" by blast
qed

lemma too_many_cells_fail:
  assumes freq: "\<forall>(label, freq) \<in> set (fleet_freq self) \<union> set (size_freq self). 0 \<le> freq"
    and fit: "proportional_fit (fleet_array self) (size_array self) (Finite (1 / 100)) =
                Some (Inr table)"
    and hh: "int_round (fl_sum (concat table)) = Inr hhnum"
    and more: "hhnum < cells_rounded table (length (fleet_freq self)) (length (size_freq self))"
  shows "\<exists>e. create_households self land' demand' g = Some (Inl e)"
    and "enough_slots self land' demand' hhnum \<Longrightarrow>
           create_households self land' demand' g = Some (Inl StopIteration)"
proof -
  let ?n = "length (fleet_freq self)" and ?m = "length (size_freq self)"
  from freq have "\<forall>r \<in> set (fleet_array self). nonneg_fl r"
    and "\<forall>c \<in> set (size_array self). nonneg_fl c"
    by (fastforce simp: fleet_array_def size_array_def)+
  from proportional_fit_nonneg [OF fit this]
  have shape: "well_shaped ?n ?m table"
    by (simp_all add: fleet_array_def size_array_def)
  have fin: "\<forall>(i, j) \<in> set (ndrange ?n ?m). \<exists>n. int_round (table ! i ! j) = Inr n"
    using table_total_cells [OF shape hh] by blast
  have run: "create_households self land' demand' g =
               Some (create_from_table self land' demand' table g)"
    using fit by (simp add: create_households_def)
  have no: "create_from_table self land' demand' table g \<noteq> Inr r" for r
  proof
    assume r: "create_from_table self land' demand' table g = Inr r"
    obtain self' g' where "r = (self', g')" by (cases r)
    with r run have "create_households self land' demand' g = Some (Inr (self', g'))" by simp
    from created_count(2) [OF freq fit this] hh more show False by simp
  qed
  then obtain e where e: "create_from_table self land' demand' table g = Inl e"
    by (cases "create_from_table self land' demand' table g") auto
  with run show "\<exists>e. create_households self land' demand' g = Some (Inl e)" by simp
  assume "enough_slots self land' demand' hhnum"
  from create_from_table_stops [OF e hh fin this] e run
  show "create_households self land' demand' g = Some (Inl StopIteration)" by simp
qed

lemma example_table:
  "proportional_fit [Finite 6, Finite 3, Finite 1] [Finite 1, Finite 1, Finite 3, Finite 5]
     (Finite (1 / 100)) =
   Some (Inr [[Finite 1, Finite (23 / 37), Finite (2070 / 1271), Finite (3450 / 1271)],
              [Finite 0, Finite (14 / 37), Finite (1260 / 1271), Finite (2100 / 1271)],
              [Finite 0, Finite 0, Finite (483 / 1271), Finite (805 / 1271)]])"
  by (simp add: fit_eval fit_loop.simps)

lemma example_population:
  "Population [(1, 1), (2, 1), (3, 3), (4, 5)] [(0, 6), (1, 3), (2, 1)] [(0, 10)] =
     \<lparr>size_freq = [(1, 1), (2, 1), (3, 3), (4, 5)], fleet_freq = [(0, 6), (1, 3), (2, 1)],
      prog_freq = [(0, 10)], households = [], adults = [], children = [], individuals = []\<rparr>"
  by (simp add: Population_def)

lemma example_table_total:
  "int_round (fl_sum (concat
     [[Finite 1, Finite (23 / 37), Finite (2070 / 1271), Finite (3450 / 1271)],
      [Finite 0, Finite (14 / 37), Finite (1260 / 1271), Finite (2100 / 1271)],
      [Finite 0, Finite 0, Finite (483 / 1271), Finite (805 / 1271)]])) = Inr 10"
  by (simp add: fl_sum_def py_round_def)

lemma example_table_cells:
  "cells_rounded
     [[Finite 1, Finite (23 / 37), Finite (2070 / 1271), Finite (3450 / 1271)],
      [Finite 0, Finite (14 / 37), Finite (1260 / 1271), Finite (2100 / 1271)],
      [Finite 0, Finite 0, Finite (483 / 1271), Finite (805 / 1271)]] 3 4 = 11"
  by (simp add: cells_rounded_def ndrange_def cell_round_def py_round_def numeral_eq_Suc)

subsection \<open>A run that completes\<close>

lemma example_small_table:
  "proportional_fit [Finite 3] [Finite 1, Finite 2] (Finite (1 / 100)) =
     Some (Inr [[Finite 1, Finite 2]])"
  by (simp add: fit_eval fit_loop.simps)

lemma randbelow_example: "randbelow n example_rng = (0, example_rng)"
  by (simp add: randbelow_def example_rng_def fun_eq_iff)

lemma example_programs:
  "get_assignments (dict_of [([5::nat], 5)]) 3 example_rng = Inr ([[5], [5], [5]], example_rng)"
  by (simp add: dict_of_def get_assignments_def rand_assignment_def shuffle_def
        randbelow_example slice_to_def eval_nat_numeral)

lemma example_places_3:
  "get_assignments [(3::nat, 2), (4, 3)] 3 example_rng = Inr ([3, 4, 4], example_rng)"
  by (simp add: get_assignments_def rand_assignment_def shuffle_def
        randbelow_example slice_to_def eval_nat_numeral)

lemma example_places_5:
  "get_assignments [(3::nat, 2), (4, 3)] 5 example_rng = Inr ([3, 4, 4, 4, 3], example_rng)"
  by (simp add: get_assignments_def rand_assignment_def shuffle_def
        randbelow_example slice_to_def eval_nat_numeral)

lemma example_places_0:
  "get_assignments [(3::nat, 2), (4, 3)] 0 example_rng = Inr ([], example_rng)"
  by (simp add: get_assignments_def rand_assignment_def shuffle_def
        randbelow_example slice_to_def eval_nat_numeral)

lemma example_small_population:
  "Population [(1, 1), (2, 2)] [(0, 3)] [(0, 5)] =
     \<lparr>size_freq = [(1, 1), (2, 2)], fleet_freq = [(0, 3)], prog_freq = [(0, 5)],
      households = [], adults = [], children = [], individuals = []\<rparr>"
  by (simp add: Population_def)

lemma example_cells:
  "\<exists>self' its'.
     create_cells (ndrange 1 2) [[Finite 1, Finite 2]] example_demand
       (\<lparr>size_freq = [(1, 1), (2, 2)], fleet_freq = [(0, 3)], prog_freq = [(0, 5)],
         households = [], adults = [], children = [], individuals = []\<rparr>,
        \<lparr>it_program = [[5], [5], [5]], it_residence = [3, 4, 4],
         it_office = [3, 4, 4, 4, 3], it_school = []\<rparr>) = Inr (self', its')"
  by (simp add: ndrange_def py_round_def add_household_def next_item_def
        add_object2pool_def Household_def add_adult_def add_child_def Let_def
        eval_nat_numeral)

lemma example_small_run:
  "\<exists>self' g'.
     create_households (Population [(1, 1), (2, 2)] [(0, 3)] [(0, 5)])
       example_land example_demand example_rng = Some (Inr (self', g'))"
proof -
  let ?P = "\<lparr>size_freq = [(1, 1), (2, 2)], fleet_freq = [(0, 3)], prog_freq = [(0, 5)],
             households = [], adults = [], children = [], individuals = []\<rparr>"
  have arrays: "fleet_array ?P = [Finite 3]" "size_array ?P = [Finite 1, Finite 2]"
    by (simp_all add: fleet_array_def size_array_def)
  have hhnum: "int_round (fl_sum (concat [[Finite 1, Finite 2]])) = Inr 3"
    by (simp add: fl_sum_def py_round_def)
  have pairs: "program_pairs example_demand (prog_freq ?P) = Inr [([5], 5)]"
    by (simp add: example_demand_def)
  have caps: "get_capacities example_land category = [(3, 2), (4, 3)]" for category
    by (simp add: example_land_def)
  have counts: "sum_list (map (\<lambda>(size', freq). (if size' > 3 then 2 else size') * freq)
                   (size_freq ?P)) = 5"
    "sum_list (map (\<lambda>(size', freq). (if size' < 3 then 0 else size' - 2) * freq)
                   (size_freq ?P)) = 0"
    by simp_all
  have shape: "ndrange (length (fleet_freq ?P)) (length (size_freq ?P)) = ndrange 1 2"
    by (simp add: numeral_2_eq_2)
  from example_cells obtain self' its' where
    cells: "create_cells (ndrange 1 2) [[Finite 1, Finite 2]] example_demand
       (?P, \<lparr>it_program = [[5], [5], [5]], it_residence = [3, 4, 4],
         it_office = [3, 4, 4, 4, 3], it_school = []\<rparr>) = Inr (self', its')"
    by blast
  have "create_from_table ?P example_land example_demand [[Finite 1, Finite 2]] example_rng =
          Inr (self', example_rng)"
    using cells unfolding create_from_table_def Let_def hhnum pairs caps counts shape
    by (simp add: example_programs example_places_3 example_places_5 example_places_0)
  then show ?thesis
    by (simp add: create_households_def example_small_population arrays example_small_table)
qed

subsection \<open>Households and rounded cells\<close>

lemma example_small_cells: "cells_rounded [[Finite 1, Finite 2]] 1 2 = 3"
  by (simp add: cells_rounded_def ndrange_def cell_round_def py_round_def numeral_eq_Suc)

lemma example_cells_exceed:
  "\<exists>self table hhnum.
      (\<forall>(label, freq) \<in> set (fleet_freq self) \<union> set (size_freq self). 0 \<le> freq)
    \<and> proportional_fit (fleet_array self) (size_array self) (Finite (1 / 100)) = Some (Inr table)
    \<and> int_round (fl_sum (concat table)) = Inr hhnum
    \<and> hhnum < cells_rounded table (length (fleet_freq self)) (length (size_freq self))"
proof -
  let ?P = "Population [(1, 1), (2, 1), (3, 3), (4, 5)] [(0, 6), (1, 3), (2, 1)] [(0, 10)]"
  let ?T = "[[Finite 1, Finite (23 / 37), Finite (2070 / 1271), Finite (3450 / 1271)],
             [Finite 0, Finite (14 / 37), Finite (1260 / 1271), Finite (2100 / 1271)],
             [Finite 0, Finite 0, Finite (483 / 1271), Finite (805 / 1271)]]"
  have "\<forall>(label, freq) \<in> set (fleet_freq ?P) \<union> set (size_freq ?P). 0 \<le> freq"
    by (simp add: example_population)
  moreover have "proportional_fit (fleet_array ?P) (size_array ?P) (Finite (1 / 100)) =
                   Some (Inr ?T)"
    by (simp add: example_population fleet_array_def size_array_def example_table)
  moreover have "int_round (fl_sum (concat ?T)) = Inr 10"
    by (rule example_table_total)
  moreover have "10 < cells_rounded ?T (length (fleet_freq ?P)) (length (size_freq ?P))"
  proof -
    have "length (fleet_freq ?P) = 3" and "length (size_freq ?P) = 4"
      by (simp_all add: example_population)
    then show ?thesis by (simp only: example_table_cells)
  qed
  ultimately show ?thesis by blast
qed

text \<open>
  Claim C10. For frequencies that are not negative and the table \<open>T\<close> that the fitter
  returns for them: a run of \<^verbatim>\<open>create_households\<close> that completes has created as many
  households as the rounded cells of \<open>T\<close> sum to; when that sum is greater than
  \<open>hhnum = int(round(T.sum()))\<close>, the number of programs and residences requested, the call
  fails, and it fails with \<^verbatim>\<open>StopIteration\<close> from the loop over the cells when every request
  to the sampler had the capacity it asked for; and there are frequencies for which the sum
  of the rounded cells is greater than \<open>hhnum\<close>.
\<close>

theorem households_per_rounded_cell:
  "(\<forall>self land' demand' g table.
      (\<forall>(label, freq) \<in> set (fleet_freq self) \<union> set (size_freq self). 0 \<le> freq) \<longrightarrow>
      proportional_fit (fleet_array self) (size_array self) (Finite (1 / 100)) =
        Some (Inr table) \<longrightarrow>
        (\<forall>self' g'. create_households self land' demand' g = Some (Inr (self', g')) \<longrightarrow>
           int (length (households self')) =
             int (length (households self))
             + cells_rounded table (length (fleet_freq self)) (length (size_freq self)))
      \<and> (\<forall>hhnum. int_round (fl_sum (concat table)) = Inr hhnum \<longrightarrow>
           hhnum < cells_rounded table (length (fleet_freq self)) (length (size_freq self)) \<longrightarrow>
           (\<exists>e. create_households self land' demand' g = Some (Inl e))
           \<and> (enough_slots self land' demand' hhnum \<longrightarrow>
                create_households self land' demand' g = Some (Inl StopIteration))))
   \<and> (\<exists>self table hhnum.
        (\<forall>(label, freq) \<in> set (fleet_freq self) \<union> set (size_freq self). 0 \<le> freq)
      \<and> proportional_fit (fleet_array self) (size_array self) (Finite (1 / 100)) =
          Some (Inr table)
      \<and> int_round (fl_sum (concat table)) = Inr hhnum
      \<and> hhnum < cells_rounded table (length (fleet_freq self)) (length (size_freq self)))"
proof (intro conjI allI impI)
  fix self land' demand' g table self' g'
  assume "\<forall>(label, freq) \<in> set (fleet_freq self) \<union> set (size_freq self). 0 \<le> freq"
    and "proportional_fit (fleet_array self) (size_array self) (Finite (1 / 100)) =
           Some (Inr table)"
    and "create_households self land' demand' g = Some (Inr (self', g'))"
  then show "int (length (households self')) =
               int (length (households self))
               + cells_rounded table (length (fleet_freq self)) (length (size_freq self))"
    by (rule created_count(1))
next
  fix self land' demand' g table hhnum
  assume "\<forall>(label, freq) \<in> set (fleet_freq self) \<union> set (size_freq self). 0 \<le> freq"
    and "proportional_fit (fleet_array self) (size_array self) (Finite (1 / 100)) =
           Some (Inr table)"
    and "int_round (fl_sum (concat table)) = Inr hhnum"
    and "hhnum < cells_rounded table (length (fleet_freq self)) (length (size_freq self))"
  then show "\<exists>e. create_households self land' demand' g = Some (Inl e)"
    by (rule too_many_cells_fail(1))
next
  fix self land' demand' g table hhnum
  assume "\<forall>(label, freq) \<in> set (fleet_freq self) \<union> set (size_freq self). 0 \<le> freq"
    and "proportional_fit (fleet_array self) (size_array self) (Finite (1 / 100)) =
           Some (Inr table)"
    and "int_round (fl_sum (concat table)) = Inr hhnum"
    and "hhnum < cells_rounded table (length (fleet_freq self)) (length (size_freq self))"
    and "enough_slots self land' demand' hhnum"
  then show "create_households self land' demand' g = Some (Inl StopIteration)"
    by (rule too_many_cells_fail(2))
next
  show "\<exists>self table hhnum.
        (\<forall>(label, freq) \<in> set (fleet_freq self) \<union> set (size_freq self). 0 \<le> freq)
      \<and> proportional_fit (fleet_array self) (size_array self) (Finite (1 / 100)) =
          Some (Inr table)
      \<and> int_round (fl_sum (concat table)) = Inr hhnum
      \<and> hhnum < cells_rounded table (length (fleet_freq self)) (length (size_freq self))"
    by (rule example_cells_exceed)
qed

theorem households_per_rounded_cell_witness:
  "(\<exists>self' g'.
      create_households (Population [(1, 1), (2, 2)] [(0, 3)] [(0, 5)])
        example_land example_demand example_rng = Some (Inr (self', g'))
      \<and> length (households self') = 3)
   \<and> create_households
         (Population [(1, 1), (2, 1), (3, 3), (4, 5)] [(0, 6), (1, 3), (2, 1)] [(0, 10)])
         example_big_land example_demand example_rng = Some (Inl StopIteration)"
proof
  let ?P = "Population [(1, 1), (2, 2)] [(0, 3)] [(0, 5)]"
  from example_small_run obtain self' g' where
    run: "create_households ?P example_land example_demand example_rng = Some (Inr (self', g'))"
    by blast
  have freq: "\<forall>(label, freq) \<in> set (fleet_freq ?P) \<union> set (size_freq ?P). 0 \<le> freq"
    by (simp add: example_small_population)
  have fit: "proportional_fit (fleet_array ?P) (size_array ?P) (Finite (1 / 100)) =
               Some (Inr [[Finite 1, Finite 2]])"
    by (simp add: example_small_population fleet_array_def size_array_def example_small_table)
  have shape: "length (fleet_freq ?P) = 1" "length (size_freq ?P) = 2"
    "length (households ?P) = 0"
    by (simp_all add: example_small_population)
  from households_per_rounded_cell [THEN conjunct1, THEN spec, THEN spec, THEN spec, THEN spec,
      THEN spec, THEN mp, THEN mp, OF freq fit, THEN conjunct1, THEN spec, THEN spec, THEN mp,
      OF run]
  have "length (households self') = 3"
    by (simp only: shape example_small_cells)
  with run show "\<exists>self' g'. create_households ?P example_land example_demand example_rng =
                   Some (Inr (self', g')) \<and> length (households self') = 3"
    by blast
next
  let ?P = "Population [(1, 1), (2, 1), (3, 3), (4, 5)] [(0, 6), (1, 3), (2, 1)] [(0, 10)]"
  let ?T = "[[Finite 1, Finite (23 / 37), Finite (2070 / 1271), Finite (3450 / 1271)],
             [Finite 0, Finite (14 / 37), Finite (1260 / 1271), Finite (2100 / 1271)],
             [Finite 0, Finite 0, Finite (483 / 1271), Finite (805 / 1271)]]"
  have freq: "\<forall>(label, freq) \<in> set (fleet_freq ?P) \<union> set (size_freq ?P). 0 \<le> freq"
    by (simp add: example_population)
  have fit: "proportional_fit (fleet_array ?P) (size_array ?P) (Finite (1 / 100)) = Some (Inr ?T)"
    by (simp add: example_population fleet_array_def size_array_def example_table)
  have "length (fleet_freq ?P) = 3" and "length (size_freq ?P) = 4"
    by (simp_all add: example_population)
  then have more: "10 < cells_rounded ?T (length (fleet_freq ?P)) (length (size_freq ?P))"
    by (simp only: example_table_cells)
  have slots: "enough_slots ?P example_big_land example_demand 10"
    by (simp add: enough_slots_def example_population example_demand_def example_big_land_def
          dict_of_def)
  from households_per_rounded_cell [THEN conjunct1, THEN spec, THEN spec, THEN spec, THEN spec,
      THEN spec, THEN mp, THEN mp, OF freq fit, THEN conjunct2, THEN spec, THEN mp, THEN mp,
      OF example_table_total more, THEN conjunct2, THEN mp, OF slots]
  show "create_households ?P example_big_land example_demand example_rng =
          Some (Inl StopIteration)" .
qed

end
